theory Spec2Isabelle
  imports Complex_Main
begin

section \<open>Python strings and the library functions the code relies on\<close>

text \<open>
  A Python \<open>str\<close> is a sequence of Unicode code points; \<open>len\<close>, indexing, \<open>find\<close> and the
  regular expressions of module \<open>re\<close> all count code points. The model therefore uses lists
  of natural numbers (one number per code point), not byte strings. ASCII text is written
  with \<open>u ''...''\<close>; the few non-ASCII code points that the source mentions have names.

  Scores are Python floats in the source, that is IEEE 754 binary64 numbers. A float is
  modelled by its exact value, a real number, and every multiplication and addition that
  the matcher performs on scores is followed by the rounding to the nearest binary64
  number (\<open>double\<close>, defined before the matcher).
\<close>

type_synonym ustr = "nat list"

abbreviation cp :: "char \<Rightarrow> nat" where
  "cp c \<equiv> of_char c"

definition u :: "string \<Rightarrow> ustr" where
  "u s = map of_char s"

abbreviation fw_lparen :: nat where "fw_lparen \<equiv> 65288"   \<comment> \<open>U+FF08, full-width (\<close>
abbreviation fw_rparen :: nat where "fw_rparen \<equiv> 65289"   \<comment> \<open>U+FF09, full-width )\<close>
abbreviation fw_comma :: nat where "fw_comma \<equiv> 65292"     \<comment> \<open>U+FF0C, full-width comma\<close>
abbreviation cjk_period :: nat where "cjk_period \<equiv> 12290" \<comment> \<open>U+3002, ideographic full stop\<close>
abbreviation cjk_deng :: nat where "cjk_deng \<equiv> 31561"     \<comment> \<open>U+7B49, the character for "et al."\<close>

text \<open>
  \<open>str.isspace\<close>, which is also what \<open>str.strip()\<close>, \<open>str.split()\<close> and the class \<open>\s\<close> of
  \<open>re\<close> use on \<open>str\<close> patterns: the fixed list of Unicode white space of CPython.
\<close>

definition isspace :: "nat \<Rightarrow> bool" where
  "isspace c \<longleftrightarrow>
     (9 \<le> c \<and> c \<le> 13) \<or> (28 \<le> c \<and> c \<le> 32) \<or> c = 133 \<or> c = 160 \<or> c = 5760 \<or>
     (8192 \<le> c \<and> c \<le> 8202) \<or> c = 8232 \<or> c = 8233 \<or> c = 8239 \<or> c = 8287 \<or> c = 12288"

definition strip :: "ustr \<Rightarrow> ustr" where
  "strip s = rev (dropWhile isspace (rev (dropWhile isspace s)))"

text \<open>
  The remaining library functions depend on the Unicode character database or belong to
  \<open>difflib\<close>; neither is part of the repository. They are parameters of the model:
  \<open>str_lower\<close> is \<open>str.lower()\<close>, \<open>str_isupper\<close> is \<open>str.isupper()\<close>, \<open>re_digit\<close> is the class
  \<open>\d\<close> of \<open>re\<close>, and \<open>seq_ratio a b\<close> is \<open>SequenceMatcher(None, a, b).ratio()\<close>.
\<close>

record pylib =
  str_lower :: "ustr \<Rightarrow> ustr"
  str_isupper :: "ustr \<Rightarrow> bool"
  re_digit :: "nat \<Rightarrow> bool"
  seq_ratio :: "ustr \<Rightarrow> ustr \<Rightarrow> real"

text \<open>
  One concrete library, used to run the model on concrete inputs. Its case mapping and its
  digits are those of CPython on every string made of ASCII characters, CJK ideographs and
  full-width punctuation, which is what the inputs evaluated below consist of. Its
  \<open>seq_ratio\<close> only separates equal from different strings; no evaluation below reaches it.
\<close>

definition ascii_lower :: "nat \<Rightarrow> nat" where
  "ascii_lower c = (if 65 \<le> c \<and> c \<le> 90 then c + 32 else c)"

definition ascii_lib :: pylib where
  "ascii_lib = \<lparr>
     str_lower = map ascii_lower,
     str_isupper = (\<lambda>s. list_ex (\<lambda>c. 65 \<le> c \<and> c \<le> 90) s \<and> \<not> list_ex (\<lambda>c. 97 \<le> c \<and> c \<le> 122) s),
     re_digit = (\<lambda>c. 48 \<le> c \<and> c \<le> 57),
     seq_ratio = (\<lambda>a b. if a = b then 1 else 0) \<rparr>"

section \<open>OCR confusion of two years: \<open>is_ocr_error\<close>\<close>

text \<open>The dictionary \<open>ocr_to_digit\<close> of the source, in the order it is written there.\<close>

definition ocr_to_digit :: "(nat \<times> nat) list" where
  "ocr_to_digit =
     [(cp CHR ''O'', cp CHR ''0''), (cp CHR ''o'', cp CHR ''0''),
      (cp CHR ''I'', cp CHR ''1''), (cp CHR ''i'', cp CHR ''1''), (cp CHR ''l'', cp CHR ''1''),
      (cp CHR ''Z'', cp CHR ''2''), (cp CHR ''z'', cp CHR ''2''),
      (cp CHR ''S'', cp CHR ''5''), (cp CHR ''s'', cp CHR ''5''),
      (cp CHR ''G'', cp CHR ''6''), (cp CHR ''g'', cp CHR ''6''),
      (cp CHR ''B'', cp CHR ''8''), (cp CHR ''b'', cp CHR ''8''),
      (cp CHR ''D'', cp CHR ''0''), (cp CHR ''d'', cp CHR ''0'')]"

text \<open>The two loops that build \<open>normalized_year1\<close> and \<open>normalized_year2\<close>.\<close>

definition ocr_normalize :: "ustr \<Rightarrow> ustr" where
  "ocr_normalize year =
     map (\<lambda>c. case map_of ocr_to_digit c of Some d \<Rightarrow> d | None \<Rightarrow> c) year"

text \<open>The list \<open>ocr_errors\<close> of the source.\<close>

definition ocr_errors :: "(nat \<times> nat) list" where
  "ocr_errors =
     [(cp CHR ''0'', cp CHR ''O''), (cp CHR ''1'', cp CHR ''I''), (cp CHR ''1'', cp CHR ''l''),
      (cp CHR ''2'', cp CHR ''Z''), (cp CHR ''5'', cp CHR ''S''), (cp CHR ''6'', cp CHR ''G''),
      (cp CHR ''8'', cp CHR ''B''), (cp CHR ''0'', cp CHR ''D''), (cp CHR ''1'', cp CHR ''7''),
      (cp CHR ''2'', cp CHR ''7''), (cp CHR ''2'', cp CHR ''1''), (cp CHR ''0'', cp CHR ''8'')]"

text \<open>
  The loop over \<open>range(4)\<close> that collects \<open>diff_positions\<close>; \<open>diff_count\<close> of the source is
  computed by a loop with the same test, so it is the length of this list.
\<close>

definition diff_positions :: "ustr \<Rightarrow> ustr \<Rightarrow> nat list" where
  "diff_positions n1 n2 = filter (\<lambda>i. n1 ! i \<noteq> n2 ! i) [0, 1, 2, 3]"

text \<open>The final loop over \<open>ocr_errors\<close>, which returns \<open>True\<close> at the first pair that fits.\<close>

definition is_error_pair :: "nat \<Rightarrow> nat \<Rightarrow> nat \<Rightarrow> nat \<Rightarrow> bool" where
  "is_error_pair char1_1 char1_2 char2_1 char2_2 =
     list_ex (\<lambda>(error1, error2).
        (char1_1 = error1 \<and> char2_1 = error2 \<and> char1_2 = error2 \<and> char2_2 = error1) \<or>
        (char1_1 = error2 \<and> char2_1 = error1 \<and> char1_2 = error1 \<and> char2_2 = error2))
      ocr_errors"

definition is_ocr_error :: "ustr \<Rightarrow> ustr \<Rightarrow> bool" where
  "is_ocr_error year1 year2 =
     (if length year1 \<noteq> 4 \<or> length year2 \<noteq> 4 then False
      else
        let normalized_year1 = ocr_normalize year1;
            normalized_year2 = ocr_normalize year2
        in
          if normalized_year1 = normalized_year2 then True
          else
            let diff_count = length (diff_positions normalized_year1 normalized_year2) in
              if diff_count = 1 then True
              else if diff_count = 2 then
                (case diff_positions normalized_year1 normalized_year2 of
                   [pos1, pos2] \<Rightarrow>
                     is_error_pair (normalized_year1 ! pos1) (normalized_year1 ! pos2)
                                   (normalized_year2 ! pos1) (normalized_year2 ! pos2)
                 | _ \<Rightarrow> False)
              else False)"

text \<open>
  The normalisation and the differing positions as the specification words them, to be
  compared with the code: the map on single characters by cases, and the pairs of
  normalised characters (one of each year, position by position) that differ.
\<close>

definition spec_ocr_digit :: "nat \<Rightarrow> nat" where
  "spec_ocr_digit c =
     (if c \<in> set (u ''OoDd'') then cp CHR ''0''
      else if c \<in> set (u ''Iil'') then cp CHR ''1''
      else if c \<in> set (u ''Zz'') then cp CHR ''2''
      else if c \<in> set (u ''Ss'') then cp CHR ''5''
      else if c \<in> set (u ''Gg'') then cp CHR ''6''
      else if c \<in> set (u ''Bb'') then cp CHR ''8''
      else c)"

definition spec_diffs :: "ustr \<Rightarrow> ustr \<Rightarrow> (nat \<times> nat) list" where
  "spec_diffs year1 year2 =
     filter (\<lambda>(a, b). a \<noteq> b) (zip (map spec_ocr_digit year1) (map spec_ocr_digit year2))"

section \<open>String operations of Python used by the code\<close>

text \<open>\<open>s.startswith(p)\<close>, \<open>sub in s\<close> and \<open>s.find(sub)\<close> (the lowest index, or \<open>-1\<close>).\<close>

fun starts_with :: "ustr \<Rightarrow> ustr \<Rightarrow> bool" where
  "starts_with s [] = True"
| "starts_with [] (p # ps) = False"
| "starts_with (c # cs) (p # ps) = (c = p \<and> starts_with cs ps)"

fun str_contains :: "ustr \<Rightarrow> ustr \<Rightarrow> bool" where
  "str_contains [] sub = (sub = [])"
| "str_contains (c # cs) sub = (starts_with (c # cs) sub \<or> str_contains cs sub)"

fun find_from :: "nat \<Rightarrow> ustr \<Rightarrow> ustr \<Rightarrow> int" where
  "find_from i [] sub = (if sub = [] then int i else - 1)"
| "find_from i (c # cs) sub =
     (if starts_with (c # cs) sub then int i else find_from (Suc i) cs sub)"

definition str_find :: "ustr \<Rightarrow> ustr \<Rightarrow> int" where
  "str_find s sub = find_from 0 s sub"

definition ends_with :: "ustr \<Rightarrow> ustr \<Rightarrow> bool" where
  "ends_with s p = starts_with (rev s) (rev p)"

text \<open>\<open>s.split(sep)\<close> for a separator of one character.\<close>

fun split_on :: "nat \<Rightarrow> ustr \<Rightarrow> ustr list" where
  "split_on sep [] = [[]]"
| "split_on sep (c # cs) =
     (if c = sep then [] # split_on sep cs
      else (case split_on sep cs of
              [] \<Rightarrow> [[c]]
            | x # xs \<Rightarrow> (c # x) # xs))"

text \<open>\<open>s.split(sep)[0]\<close>; the list that \<open>split\<close> returns is never empty.\<close>

definition split_first :: "nat \<Rightarrow> ustr \<Rightarrow> ustr" where
  "split_first sep s = (case split_on sep s of [] \<Rightarrow> [] | x # xs \<Rightarrow> x)"

text \<open>Truth value of an \<open>Optional[str]\<close> in a condition: \<open>None\<close> and \<open>""\<close> are false.\<close>

fun truthy :: "ustr option \<Rightarrow> bool" where
  "truthy None = False"
| "truthy (Some s) = (s \<noteq> [])"

section \<open>Regular expressions, pattern by pattern\<close>

text \<open>
  Each regular expression of the source is written as a function on the text that is left
  at the position where the match is tried. \<open>re_search\<close> tries the positions from left to
  right, as \<open>re.search\<close> does for a pattern without anchor; a pattern that starts with \<open>^\<close>
  is tried at the first position only.
\<close>

fun re_search :: "(ustr \<Rightarrow> 'a option) \<Rightarrow> ustr \<Rightarrow> 'a option" where
  "re_search m [] = m []"
| "re_search m (c # cs) = (case m (c # cs) of Some r \<Rightarrow> Some r | None \<Rightarrow> re_search m cs)"

fun first_some :: "('a \<Rightarrow> 'b option) \<Rightarrow> 'a list \<Rightarrow> 'b option" where
  "first_some f [] = None"
| "first_some f (x # xs) = (case f x of Some r \<Rightarrow> Some r | None \<Rightarrow> first_some f xs)"

text \<open>
  A lazy group \<open>(X+?)\<close> followed by the rest \<open>k\<close> of the pattern: the group takes one more
  character of class \<open>ok\<close> at a time and the rest is tried after each. The result is the
  group and what the rest returns.
\<close>

fun lazy_group :: "(nat \<Rightarrow> bool) \<Rightarrow> (ustr \<Rightarrow> 'a option) \<Rightarrow> ustr \<Rightarrow> ustr \<Rightarrow> (ustr \<times> 'a) option" where
  "lazy_group ok k pre [] = None"
| "lazy_group ok k pre (c # cs) =
     (if \<not> ok c then None
      else (case k cs of
              Some r \<Rightarrow> Some (pre @ [c], r)
            | None \<Rightarrow> lazy_group ok k (pre @ [c]) cs))"

text \<open>
  The texts that can be left after a greedy \<open>\s*\<close>, in the order in which backtracking
  tries them: all white space taken first, none taken last.
\<close>

fun after_spaces :: "ustr \<Rightarrow> ustr list" where
  "after_spaces [] = [[]]"
| "after_spaces (c # cs) = (if isspace c then after_spaces cs @ [c # cs] else [c # cs])"

text \<open>The dot of \<open>re\<close> without \<open>DOTALL\<close>: every character but the line feed.\<close>

definition re_dot :: "nat \<Rightarrow> bool" where
  "re_dot c \<longleftrightarrow> c \<noteq> 10"

section \<open>Citation parser: \<open>extract_author_year_from_citation\<close>\<close>

text \<open>The class \<open>[0-9OoIiZzSsGgBbDd]\<close>.\<close>

definition year_char :: "nat \<Rightarrow> bool" where
  "year_char c \<longleftrightarrow> c \<in> set (u ''0123456789OoIiZzSsGgBbDd'')"

text \<open>An opening parenthesis \<open>l\<close>, four year characters and the closing parenthesis \<open>r\<close>.\<close>

definition parenthesized_year :: "nat \<Rightarrow> nat \<Rightarrow> ustr \<Rightarrow> ustr option" where
  "parenthesized_year l r s =
     (case s of
        p # a # b # c # d # q # rest \<Rightarrow>
          if p = l \<and> year_char a \<and> year_char b \<and> year_char c \<and> year_char d \<and> q = r
          then Some [a, b, c, d] else None
      | _ \<Rightarrow> None)"

definition extract_author_year_from_citation :: "ustr \<Rightarrow> ustr option \<times> ustr option" where
  "extract_author_year_from_citation citation =
     (case lazy_group re_dot (parenthesized_year fw_lparen fw_rparen) [] (strip citation) of
        Some (author, year) \<Rightarrow> (Some (strip author), Some year)
      | None \<Rightarrow>
          (case lazy_group re_dot
                  (\<lambda>s. first_some (parenthesized_year (cp CHR ''('') (cp CHR '')'')) (after_spaces s))
                  [] (strip citation) of
             Some (author, year) \<Rightarrow> (Some (strip author), Some year)
           | None \<Rightarrow> (None, None)))"

section \<open>Reference parser: \<open>extract_author_year_from_reference\<close>\<close>

text \<open>
  \<open>\d+\]\<close> after the opening bracket of a label: the digits are greedy, and the closing
  bracket is looked for after the longest run of digits first. The result is the text
  after the bracket.
\<close>

fun digits_rbracket :: "pylib \<Rightarrow> ustr \<Rightarrow> ustr option" where
  "digits_rbracket L [] = None"
| "digits_rbracket L (c # cs) =
     (if \<not> re_digit L c then None
      else (case digits_rbracket L cs of
              Some rest \<Rightarrow> Some rest
            | None \<Rightarrow> (case cs of
                         [] \<Rightarrow> None
                       | d # ds \<Rightarrow> if d = cp CHR '']'' then Some ds else None)))"

text \<open>\<open>re.sub(r'^\s*\[\d+\]\s*', '', reference_text)\<close>.\<close>

definition strip_label :: "pylib \<Rightarrow> ustr \<Rightarrow> ustr" where
  "strip_label L reference_text =
     (case dropWhile isspace reference_text of
        [] \<Rightarrow> reference_text
      | c # cs \<Rightarrow>
          if c = cp CHR ''[''
          then (case digits_rbracket L cs of
                  Some rest \<Rightarrow> dropWhile isspace rest
                | None \<Rightarrow> reference_text)
          else reference_text)"

text \<open>
  The nine year patterns all have the shape: a lead, the group \<open>(\d{4})\<close>, a trail. The lead
  returns the texts it can leave (in backtracking order), the trail is a test on the text
  after the four digits.
\<close>

definition year_pattern ::
    "pylib \<Rightarrow> (ustr \<Rightarrow> ustr list) \<Rightarrow> (ustr \<Rightarrow> bool) \<Rightarrow> ustr \<Rightarrow> ustr option" where
  "year_pattern L lead trail s =
     first_some
       (\<lambda>r. case r of
               a # b # c # d # rest \<Rightarrow>
                 if re_digit L a \<and> re_digit L b \<and> re_digit L c \<and> re_digit L d \<and> trail rest
                 then Some [a, b, c, d] else None
             | _ \<Rightarrow> None)
       (lead s)"

definition lead_char :: "nat \<Rightarrow> ustr \<Rightarrow> ustr list" where
  "lead_char ch s = (case s of [] \<Rightarrow> [] | c # cs \<Rightarrow> if c = ch then [cs] else [])"

definition lead_char_spaces :: "nat \<Rightarrow> ustr \<Rightarrow> ustr list" where
  "lead_char_spaces ch s = (case s of [] \<Rightarrow> [] | c # cs \<Rightarrow> if c = ch then after_spaces cs else [])"

definition lead_space :: "ustr \<Rightarrow> ustr list" where
  "lead_space s = (case s of [] \<Rightarrow> [] | c # cs \<Rightarrow> if isspace c then [cs] else [])"

definition trail_comma_or_paren :: "ustr \<Rightarrow> bool" where
  "trail_comma_or_paren s = (case s of [] \<Rightarrow> False | c # cs \<Rightarrow> c = cp CHR '','' \<or> c = cp CHR '')'')"

definition year_patterns :: "pylib \<Rightarrow> (ustr \<Rightarrow> ustr option) list" where
  "year_patterns L =
     [year_pattern L (lead_char (cp CHR ''('')) (\<lambda>s. starts_with s (u '')'')),
      year_pattern L (lead_char (cp CHR ''('')) (\<lambda>s. starts_with s (u '').'')),
      year_pattern L (lead_char_spaces (cp CHR '','')) trail_comma_or_paren,
      year_pattern L (lead_char_spaces (cp CHR '','')) (\<lambda>s. starts_with s (u ''.'')),
      year_pattern L (lead_char_spaces (cp CHR '','')) (\<lambda>s. True),
      year_pattern L (lead_char_spaces (cp CHR '':'')) (\<lambda>s. starts_with s (u ''.'')),
      year_pattern L (lead_char_spaces (cp CHR '':'')) (\<lambda>s. True),
      year_pattern L lead_space (\<lambda>s. starts_with s (u ''.'')),
      year_pattern L lead_space (\<lambda>s. True)]"

text \<open>
  \<open>re.sub(r'P$', '', s)\<close> for a pattern \<open>P\<close> that matches exactly the text \<open>p\<close>: without
  \<open>MULTILINE\<close>, \<open>$\<close> is the end of the string or the position before a line feed that ends
  the string.
\<close>

definition remove_at_end :: "ustr \<Rightarrow> ustr \<Rightarrow> ustr" where
  "remove_at_end p s =
     (if ends_with s p then take (length s - length p) s
      else if ends_with s (p @ [10]) then take (length s - length p - 1) s @ [10]
      else s)"

definition extract_author_year_from_reference :: "pylib \<Rightarrow> ustr \<Rightarrow> ustr option \<times> ustr option" where
  "extract_author_year_from_reference L reference_text =
     (let clean_reference_text = strip_label L reference_text;
          year = first_some (\<lambda>pattern. re_search pattern clean_reference_text) (year_patterns L);
          author_match = takeWhile (\<lambda>c. c \<noteq> cp CHR ''.'' \<and> c \<noteq> cp CHR '','') clean_reference_text;
          author = (if author_match \<noteq> [] then Some (strip author_match) else None);
          author = (case author of
                      None \<Rightarrow> None
                    | Some a \<Rightarrow>
                        if a \<noteq> [] \<and> (fw_comma \<in> set a \<or> cp CHR '','' \<in> set a)
                        then (if fw_comma \<in> set a then Some (strip (split_first fw_comma a))
                              else Some (strip (split_first (cp CHR '','') a)))
                        else Some a);
          author = (case author of
                      None \<Rightarrow> None
                    | Some a \<Rightarrow>
                        if a \<noteq> []
                        then (let a = strip (remove_at_end [cjk_deng] a);
                                  a = (if ends_with a (u ''et al.'') \<or> ends_with a (u ''et al.'' @ [10])
                                       then remove_at_end (u ''et al.'') a
                                       else remove_at_end (u ''et al'') a)
                              in Some (strip a))
                        else Some a)
      in (author, year))"

section \<open>Similarity scores\<close>

definition calculate_author_match_score :: "pylib \<Rightarrow> ustr \<Rightarrow> ustr \<Rightarrow> ustr \<Rightarrow> real" where
  "calculate_author_match_score L citation_author reference_text ref_author =
     (let citation_author = str_lower L (strip citation_author);
          reference_text = str_lower L reference_text;
          ref_author = str_lower L (strip ref_author)
      in
        if citation_author = ref_author then 1.0
        else if str_contains ref_author citation_author \<or> str_contains citation_author ref_author
        then 0.9
        else if str_contains reference_text citation_author
        then (let position = str_find reference_text citation_author in
                if position < 100 then 0.8
                else if position < 200 then 0.6
                else 0.4)
        else seq_ratio L citation_author ref_author * 0.5)"

definition calculate_year_match_score :: "ustr \<Rightarrow> ustr \<Rightarrow> ustr option \<Rightarrow> real" where
  "calculate_year_match_score citation_year reference_text ref_year =
     (if truthy ref_year \<and> Some citation_year = ref_year then 1.0
      else if (case ref_year of None \<Rightarrow> False | Some y \<Rightarrow> y \<noteq> [] \<and> is_ocr_error citation_year y)
      then 0.9
      else if str_contains reference_text citation_year then 0.8
      else 0.0)"

section \<open>Python floats\<close>

text \<open>
  A Python float is a binary64 number of IEEE 754: 53 significant bits, exponents from
  -1022 to 1023, rounding to nearest with ties to even. \<open>double x\<close> is the float that a
  decimal literal or an exact result \<open>x\<close> is rounded to, given by its exact value; so the
  literal \<open>0.6\<close> of the source is \<open>double 0.6\<close>, and the product of two floats \<open>a\<close> and
  \<open>b\<close> is \<open>double (a * b)\<close>. The scores of the code lie between 0 and 1, so no overflow
  occurs and none is modelled.

  \<open>pow2 e\<close> is 2 to the power \<open>e\<close>. \<open>double_exponent x\<close> is the exponent \<open>e\<close> of the binade
  of \<open>x\<close>, the largest \<open>e\<close> with \<open>pow2 e \<le> \<bar>x\<bar>\<close>, but not less than -1022 (below that the
  numbers are subnormal and keep the spacing of the exponent -1022); it is searched for
  downwards from 1023. Floats of that binade are the multiples of \<open>pow2 (e - 52)\<close>.
\<close>

definition pow2 :: "int \<Rightarrow> real" where
  "pow2 e = (if 0 \<le> e then 2 ^ nat e else 1 / 2 ^ nat (- e))"

fun binade_below :: "nat \<Rightarrow> int \<Rightarrow> real \<Rightarrow> int" where
  "binade_below 0 e x = e"
| "binade_below (Suc n) e x = (if pow2 e \<le> x then e else binade_below n (e - 1) x)"

definition double_exponent :: "real \<Rightarrow> int" where
  "double_exponent x = binade_below 2045 1023 \<bar>x\<bar>"

definition round_half_even :: "real \<Rightarrow> int" where
  "round_half_even x =
     (let f = \<lfloor>x\<rfloor> in
        if x - of_int f < 1 / 2 then f
        else if x - of_int f > 1 / 2 then f + 1
        else if even f then f else f + 1)"

definition double :: "real \<Rightarrow> real" where
  "double x =
     of_int (round_half_even (x / pow2 (double_exponent x - 52))) * pow2 (double_exponent x - 52)"

section \<open>Matcher: \<open>map_author_year_citation_to_reference\<close>\<close>

text \<open>
  A reference entry is a dictionary of which the matcher reads the key \<open>text\<close> only (field \<open>entry_text\<close>). The
  function returns the dictionary object it selected; an object is identified here by its
  position in the list \<open>references\<close>, which the result carries as \<open>reference_index\<close>.
\<close>

record ref_entry =
  entry_text :: ustr

record match_result =
  reference :: ref_entry
  reference_index :: nat
  corrected_citation :: ustr
  original_citation :: ustr

text \<open>
  The body of the loop up to \<open>total_score\<close>, for a reference whose author was extracted.
  The two scorers return one of their decimal constants, or the ratio of \<open>difflib\<close> times
  0.5, written as exact numbers; the float that the code holds is the \<open>double\<close> of it, and
  \<open>author_score * 0.6 + year_score * 0.4\<close> is computed on floats: two rounded products and
  their rounded sum.
\<close>

definition total_score :: "pylib \<Rightarrow> ustr \<Rightarrow> ustr \<Rightarrow> ustr \<Rightarrow> ustr \<Rightarrow> ustr option \<Rightarrow> real" where
  "total_score L citation_author citation_year ref_text ref_author ref_year =
     (let author_score = double (calculate_author_match_score L citation_author ref_text ref_author);
          year_score = double (calculate_year_match_score citation_year ref_text ref_year)
      in double (double (author_score * double 0.6) + double (year_score * double 0.4)))"

text \<open>
  The loop over \<open>references\<close>. Its state is \<open>best_match\<close> (with the position of the entry),
  \<open>best_score\<close> and \<open>best_ref_year\<close>.
\<close>

type_synonym best = "(nat \<times> ref_entry) option \<times> real \<times> ustr option"

fun best_match_loop :: "pylib \<Rightarrow> ustr \<Rightarrow> ustr \<Rightarrow> (nat \<times> ref_entry) list \<Rightarrow> best \<Rightarrow> best" where
  "best_match_loop L citation_author citation_year [] st = st"
| "best_match_loop L citation_author citation_year ((i, ref) # rest) (best_match, best_score, best_ref_year) =
     (case extract_author_year_from_reference L (entry_text ref) of
        (ref_author, ref_year) \<Rightarrow>
          (case ref_author of
             None \<Rightarrow> best_match_loop L citation_author citation_year rest (best_match, best_score, best_ref_year)
           | Some a \<Rightarrow>
               if a = []
               then best_match_loop L citation_author citation_year rest (best_match, best_score, best_ref_year)
               else if total_score L citation_author citation_year (entry_text ref) a ref_year > best_score
               then best_match_loop L citation_author citation_year rest
                      (Some (i, ref), total_score L citation_author citation_year (entry_text ref) a ref_year, ref_year)
               else best_match_loop L citation_author citation_year rest (best_match, best_score, best_ref_year)))"

definition map_author_year_citation_to_reference ::
    "pylib \<Rightarrow> ustr \<Rightarrow> ref_entry list \<Rightarrow> match_result option" where
  "map_author_year_citation_to_reference L citation references =
     (case extract_author_year_from_citation citation of
        (Some citation_author, Some citation_year) \<Rightarrow>
          if citation_author = [] \<or> citation_year = [] then None
          else
            (case best_match_loop L citation_author citation_year
                    (zip [0 ..< length references] references) (None, 0.0, None) of
               (Some (i, best_match), best_score, best_ref_year) \<Rightarrow>
                 if best_score > double 0.3
                 then (case best_ref_year of
                         Some y \<Rightarrow>
                           if y \<noteq> [] \<and> y \<noteq> citation_year
                           then Some \<lparr> reference = best_match, reference_index = i,
                                       corrected_citation = citation_author @ [fw_lparen] @ y @ [fw_rparen],
                                       original_citation = citation \<rparr>
                           else Some \<lparr> reference = best_match, reference_index = i,
                                       corrected_citation = citation,
                                       original_citation = citation \<rparr>
                       | None \<Rightarrow>
                           Some \<lparr> reference = best_match, reference_index = i,
                                  corrected_citation = citation,
                                  original_citation = citation \<rparr>)
                 else None
             | (None, best_score, best_ref_year) \<Rightarrow> None)
      | _ \<Rightarrow> None)"

section \<open>Occurrences of a string in another, as the specification speaks of them\<close>

text \<open>\<open>sub\<close> occurs in \<open>s\<close> at index \<open>i\<close>.\<close>

definition occurs_at :: "ustr \<Rightarrow> ustr \<Rightarrow> nat \<Rightarrow> bool" where
  "occurs_at s sub i \<longleftrightarrow> i + length sub \<le> length s \<and> take (length sub) (drop i s) = sub"

section \<open>What the matcher's loop computes for one reference entry\<close>

text \<open>
  The loop skips an entry from whose text no author could be extracted
  (\<open>if not ref_author: continue\<close>); every other entry is scored. \<open>has_author\<close> says that
  the entry is scored and \<open>extracted_year\<close> is the year extracted from its text.
  \<open>combined_score\<close> is the combined score as the specification gives it, written out
  independently of the loop: \<open>author_score * 0.6 + year_score * 0.4\<close> on floats, for the author
  and the year extracted from the text of the entry.
\<close>

definition has_author :: "pylib \<Rightarrow> ref_entry \<Rightarrow> bool" where
  "has_author L ref = truthy (fst (extract_author_year_from_reference L (entry_text ref)))"

definition extracted_year :: "pylib \<Rightarrow> ref_entry \<Rightarrow> ustr option" where
  "extracted_year L ref = snd (extract_author_year_from_reference L (entry_text ref))"

definition combined_score :: "pylib \<Rightarrow> ustr \<Rightarrow> ustr \<Rightarrow> ref_entry \<Rightarrow> real" where
  "combined_score L citation_author citation_year ref =
     (case extract_author_year_from_reference L (entry_text ref) of
        (Some ref_author, ref_year) \<Rightarrow>
          double
            (double (double (calculate_author_match_score L citation_author (entry_text ref) ref_author)
                       * double 0.6) +
             double (double (calculate_year_match_score citation_year (entry_text ref) ref_year)
                       * double 0.4))
      | (None, ref_year) \<Rightarrow> 0)"

section \<open>Author list of a Chinese reference: \<open>extract_chinese_authors\<close>\<close>

text \<open>The class of the code points U+4E00 to U+9FFF searched for by \<open>contains_chinese\<close>.\<close>

definition contains_chinese :: "ustr \<Rightarrow> bool" where
  "contains_chinese s = list_ex (\<lambda>c. 19968 \<le> c \<and> c \<le> 40959) s"

text \<open>
  The test by which \<open>extract_authors_from_reference\<close> takes a reference for a Chinese one:
  a CJK character among the first 50, or one of four marks anywhere (the full-width comma,
  the ideographic full stop, and the two words for "journal", U+671F U+520A and
  U+6742 U+5FD7).
\<close>

definition is_chinese_reference :: "ustr \<Rightarrow> bool" where
  "is_chinese_reference reference_text \<longleftrightarrow>
     contains_chinese (take 50 reference_text) \<or>
     list_ex (str_contains reference_text)
       [[fw_comma], [cjk_period], [26399, 21002], [26434, 24535]]"

text \<open>
  The pattern is \<open>^([^\.]+?)\.\<close>: the text before the first full stop, which must not be
  empty.
\<close>

definition extract_chinese_authors :: "ustr \<Rightarrow> ustr list" where
  "extract_chinese_authors reference_text =
     (case lazy_group (\<lambda>c. c \<noteq> cp CHR ''.'')
             (\<lambda>s. if starts_with s (u ''.'') then Some () else None) [] reference_text of
        None \<Rightarrow> []
      | Some (authors_str, m) \<Rightarrow>
          (let authors =
                 (if fw_comma \<in> set authors_str
                  then filter (\<lambda>author. author \<noteq> []) (map strip (split_on fw_comma authors_str))
                  else if cp CHR '','' \<in> set authors_str
                  then filter (\<lambda>author. author \<noteq> []) (map strip (split_on (cp CHR '','') authors_str))
                  else [strip authors_str])
           in filter (\<lambda>author. author \<noteq> [cjk_deng]) authors))"

section \<open>Citation formatter: \<open>_format_chinese_academy_of_sciences\<close>\<close>

text \<open>\<open>s.split()\<close> without argument: the words between runs of white space.\<close>

fun split_words :: "ustr \<Rightarrow> ustr \<Rightarrow> ustr list" where
  "split_words cur [] = (if cur = [] then [] else [cur])"
| "split_words cur (c # cs) =
     (if isspace c
      then (if cur = [] then split_words [] cs else cur # split_words [] cs)
      else split_words (cur @ [c]) cs)"

definition str_split :: "ustr \<Rightarrow> ustr list" where
  "str_split s = split_words [] s"

text \<open>The method \<open>_extract_surname\<close> of \<open>CitationFormatter\<close>.\<close>

definition formatter_extract_surname :: "ustr \<Rightarrow> ustr" where
  "formatter_extract_surname author =
     (let author = strip author in
        if cp CHR '','' \<in> set author then strip (split_first (cp CHR '','') author)
        else (case str_split author of
                [] \<Rightarrow> author
              | [p] \<Rightarrow> p
              | p # q # ps \<Rightarrow> last (q # ps)))"

definition format_chinese_academy_of_sciences :: "pylib \<Rightarrow> ustr list \<Rightarrow> ustr \<Rightarrow> ustr" where
  "format_chinese_academy_of_sciences L authors year =
     (case authors of
        [] \<Rightarrow> [fw_lparen] @ year @ [fw_rparen]
      | first_author # others \<Rightarrow>
          if contains_chinese first_author
          then (if length authors > 1
                then first_author @ u '' '' @ [cjk_deng, fw_lparen] @ year @ [fw_rparen]
                else first_author @ [fw_lparen] @ year @ [fw_rparen])
          else
            (let surnames = map formatter_extract_surname authors in
               if length surnames = 1 \<and>
                  (length (str_split (surnames ! 0)) > 2 \<or> str_isupper L (surnames ! 0))
               then surnames ! 0 @ [fw_lparen] @ year @ [fw_rparen]
               else if length surnames > 2
               then surnames ! 0 @ u '' et al.'' @ [fw_lparen] @ year @ [fw_rparen]
               else if length surnames = 2
               then surnames ! 0 @ u '' & '' @ surnames ! 1 @ [fw_lparen] @ year @ [fw_rparen]
               else surnames ! 0 @ [fw_lparen] @ year @ [fw_rparen]))"

section \<open>Unused references in \<open>analyze_document\<close>\<close>






section \<open>The inputs of the two scenarios of the specification\<close>

text \<open>
  The citation \<open>Smith(2O2O)\<close>, its parentheses full-width, with the reference
  \<open>Smith, J. (2020).\<close>; and the citation of Zhang San (U+5F20 U+4E09) with the year 2024
  in full-width parentheses, with the reference "Zhang San, Li Si. Title. Journal, 2024."
  written in Chinese: the two authors (Li Si is U+674E U+56DB) separated by a full-width
  comma, the title U+6807 U+9898, the journal U+671F U+520A.
\<close>

definition smith_citation :: ustr where
  "smith_citation = u ''Smith'' @ [fw_lparen] @ u ''2O2O'' @ [fw_rparen]"

definition smith_reference :: ref_entry where
  "smith_reference = \<lparr> entry_text = u ''Smith, J. (2020).'' \<rparr>"

text \<open>
  Further inputs: the citation of Smith with the year 2020; a reference that starts with
  the character U+7B49 alone before the first full stop, so that nothing is left of its
  author; a reference of Smith from 1999; and a reference of another author from 2021 in
  which \<open>Smith\<close> occurs after index 200 (after a run of 200 letters x).
\<close>

definition smith_2020_citation :: ustr where
  "smith_2020_citation = u ''Smith'' @ [fw_lparen] @ u ''2020'' @ [fw_rparen]"

definition deng_reference :: ref_entry where
  "deng_reference = \<lparr> entry_text = [cjk_deng] @ u ''. Title, 2020.'' \<rparr>"

definition smith_1999_reference :: ref_entry where
  "smith_1999_reference = \<lparr> entry_text = u ''Smith, J. (1999). Title.'' \<rparr>"

definition far_reference :: ref_entry where
  "far_reference =
     \<lparr> entry_text =
         u ''Jones, A. (2021). xxxxxxxxxxxxxxxxxxxxxxxxxxxxxxxxxxxxxxxxxxxxxxxxxxxxxxxxxxxxxxxxxxxxxxxxxxxxxxxxxxxxxxxxxxxxxxxxxxxxxxxxxxxxxxxxxxxxxxxxxxxxxxxxxxxxxxxxxxxxxxxxxxxxxxxxxxxxxxxxxxxxxxxxxxxxxxxxxxxxxxxxxxxxxxxxxxxxxxxx Smith'' \<rparr>"

definition zhang_san :: ustr where
  "zhang_san = [24352, 19977]"

definition li_si :: ustr where
  "li_si = [26446, 22235]"

definition zhang_citation :: ustr where
  "zhang_citation = zhang_san @ [fw_lparen] @ u ''2024'' @ [fw_rparen]"

definition zhang_reference :: ref_entry where
  "zhang_reference =
     \<lparr> entry_text = zhang_san @ [fw_comma] @ li_si @ u ''. '' @ [26631, 39064] @ u ''. '' @
                     [26399, 21002] @ u '', 2024.'' \<rparr>"

section \<open>Inputs of the formatter and of the analysis\<close>

text \<open>
  An institutional author of three words, one written in capitals, and a numbered reference
  that a document lists twice.
\<close>

definition who_author :: ustr where
  "who_author = u ''World Health Organization''"

definition un_author :: ustr where
  "un_author = u ''UNITED NATIONS''"


section \<open>Arguments that are not strings\<close>

text \<open>
  Python passes any object where the signature says \<open>str\<close>. The values considered here are
  \<open>None\<close>, a string and an integer; of these only the string has the method \<open>strip\<close>, and
  the attribute lookup on the others raises \<open>AttributeError\<close>.
  \<open>extract_author_year_from_citation\<close> evaluates \<open>citation.strip()\<close> as the argument of
  its first \<open>re.search\<close>, before anything else, and has no handler;
  \<open>map_author_year_citation_to_reference\<close> calls it in its first statement, outside of any
  \<open>try\<close>. Neither tests its argument for \<open>None\<close> or for its type.
\<close>

datatype pyval = PyNone | PyStr ustr | PyInt int

datatype pyerror = AttributeError

definition extract_author_year_from_citation_py :: "pyval \<Rightarrow> pyerror + (ustr option \<times> ustr option)" where
  "extract_author_year_from_citation_py citation =
     (case citation of
        PyStr s \<Rightarrow> Inr (extract_author_year_from_citation s)
      | PyNone \<Rightarrow> Inl AttributeError
      | PyInt n \<Rightarrow> Inl AttributeError)"

definition map_author_year_citation_to_reference_py ::
    "pylib \<Rightarrow> pyval \<Rightarrow> ref_entry list \<Rightarrow> pyerror + match_result option" where
  "map_author_year_citation_to_reference_py L citation references =
     (case extract_author_year_from_citation_py citation of
        Inl e \<Rightarrow> Inl e
      | Inr parsed \<Rightarrow>
          (case citation of
             PyStr s \<Rightarrow> Inr (map_author_year_citation_to_reference L s references)
           | PyNone \<Rightarrow> Inl AttributeError
           | PyInt n \<Rightarrow> Inl AttributeError))"

(*THEOREMS*)

section \<open>Rounding to doubles\<close>

text \<open>
  The exponent search finds the binade; so for a number whose binade is known, \<open>double\<close>
  rounds its multiple of the spacing to an integer. The lemmas after it give the doubles
  of the constants of the matcher and of the products and sums that the evaluations below
  meet, each number written as a fraction in lowest terms.
\<close>

lemma pow2_powi: "pow2 e = 2 powi e"
  by (simp add: pow2_def power_int_def field_simps)

lemma pow2_mono: "a \<le> b \<Longrightarrow> pow2 a \<le> pow2 b"
  by (simp add: pow2_powi power_int_increasing)

lemma binade_below_eq:
  "pow2 k \<le> x \<Longrightarrow> x < pow2 (k + 1) \<Longrightarrow> k \<le> e \<Longrightarrow> e - k \<le> int n \<Longrightarrow> binade_below n e x = k"
proof (induction n arbitrary: e)
  case 0
  then show ?case by simp
next
  case (Suc n)
  show ?case
  proof (cases "e = k")
    case True
    with Suc.prems show ?thesis by simp
  next
    case False
    with Suc.prems have "k + 1 \<le> e" by simp
    then have "pow2 (k + 1) \<le> pow2 e" by (rule pow2_mono)
    with Suc.prems have "\<not> pow2 e \<le> x" by simp
    moreover have "binade_below n (e - 1) x = k"
      using Suc.prems \<open>k + 1 \<le> e\<close> by (intro Suc.IH) simp_all
    ultimately show ?thesis by simp
  qed
qed

lemma double_eval:
  assumes lo: "2 ^ 52 \<le> \<bar>x\<bar> * 2 ^ j" and hi: "\<bar>x\<bar> * 2 ^ j < 2 ^ 53" and j: "j \<le> 1074"
  shows "double x = of_int (round_half_even (x * 2 ^ j)) / 2 ^ j"
proof -
  let ?k = "52 - int j"
  have p: "pow2 (- int j) = 1 / 2 ^ j"
    by (simp add: pow2_powi power_int_minus field_simps)
  have pk: "pow2 ?k = 2 ^ 52 / 2 ^ j"
    by (simp add: pow2_powi power_int_diff)
  have k1: "?k + 1 = 53 - int j" by simp
  have pk1: "pow2 (53 - int j) = 2 ^ 53 / 2 ^ j"
    by (simp add: pow2_powi power_int_diff)
  from lo have a: "pow2 ?k \<le> \<bar>x\<bar>" unfolding pk by (simp add: field_simps)
  from hi have "\<bar>x\<bar> < pow2 (53 - int j)" unfolding pk1 by (simp add: field_simps)
  then have b: "\<bar>x\<bar> < pow2 (?k + 1)" by (simp only: k1)
  have "double_exponent x = ?k"
    unfolding double_exponent_def using a b j by (intro binade_below_eq) simp_all
  then have "double_exponent x - 52 = - int j" by simp
  then show ?thesis by (simp add: double_def p)
qed

lemma double_0: "double 0 = 0"
  by (simp add: double_def round_half_even_def)

lemma double_1: "double 1 = 1"
  by (subst double_eval [where j = 52]) (simp_all add: round_half_even_def)

lemma double_6_10: "double (3 / 5) = 5404319552844595 / 9007199254740992"
  by (subst double_eval [where j = 53]) (simp_all add: round_half_even_def)

lemma double_4_10: "double (2 / 5) = 3602879701896397 / 9007199254740992"
  by (subst double_eval [where j = 54]) (simp_all add: round_half_even_def)

lemma double_9_10: "double (9 / 10) = 8106479329266893 / 9007199254740992"
  by (subst double_eval [where j = 53]) (simp_all add: round_half_even_def)

lemma double_3_10: "double (3 / 10) = 5404319552844595 / 18014398509481984"
  by (subst double_eval [where j = 54]) (simp_all add: round_half_even_def)

lemma double_96_100: "double (24 / 25) = 1080863910568919 / 1125899906842624"
  by (subst double_eval [where j = 53]) (simp_all add: round_half_even_def)

lemma double_val_06: "double (5404319552844595 / 9007199254740992) = 5404319552844595 / 9007199254740992"
  by (subst double_eval [where j = 53]) (simp_all add: round_half_even_def)

lemma double_val_04: "double (3602879701896397 / 9007199254740992) = 3602879701896397 / 9007199254740992"
  by (subst double_eval [where j = 54]) (simp_all add: round_half_even_def)

lemma double_prod_09_04: "double (29206669829258407752355848084521 / 81129638414606681695789005144064) = 6485183463413515 / 18014398509481984"
  by (subst double_eval [where j = 54]) (simp_all add: round_half_even_def)

lemma double_prod_04_06: "double (19471113219505603967277331424215 / 81129638414606681695789005144064) = 1080863910568919 / 4503599627370496"
  by (subst double_eval [where j = 55]) (simp_all add: round_half_even_def)

lemma double_prod_09_06: "double (43810004743887607575294107493335 / 81129638414606681695789005144064) = 607985949695017 / 1125899906842624"
  by (subst double_eval [where j = 53]) (simp_all add: round_half_even_def)

lemma double_sum_smith: "double (17293822569102705 / 18014398509481984) = 1080863910568919 / 1125899906842624"
  by (subst double_eval [where j = 53]) (simp_all add: round_half_even_def)

lemma double_sum_far: "double (10808639105689191 / 18014398509481984) = 1351079888211149 / 2251799813685248"
  by (subst double_eval [where j = 53]) (simp_all add: round_half_even_def)

lemma double_sum_deng: "double (8466767299456533 / 9007199254740992) = 8466767299456533 / 9007199254740992"
  by (subst double_eval [where j = 53]) (simp_all add: round_half_even_def)

lemmas double_values = double_0 double_1 double_6_10 double_4_10 double_9_10 double_3_10 double_96_100 double_val_06 double_val_04 double_prod_09_04 double_prod_04_06 double_prod_09_06 double_sum_smith double_sum_far double_sum_deng


text \<open>
  The threshold of the matcher. The float \<open>0.3\<close> lies just below the number 3/10, and no
  float lies between the two: a float with exponent at least -2 is a multiple of
  \<open>pow2 (- 54)\<close>, of which \<open>double 0.3\<close> is the largest below 3/10, and a float with a
  smaller exponent is at most 1/4. So a float is greater than the float \<open>0.3\<close> exactly
  when it is greater than 3/10.
\<close>

lemma binade_below_le: "binade_below n e x \<le> e"
proof (induction n arbitrary: e)
  case 0
  show ?case by simp
next
  case (Suc n)
  have "binade_below n (e - 1) x \<le> e - 1" by (rule Suc.IH)
  then show ?case by simp
qed

lemma binade_below_less:
  "binade_below n e x < e \<Longrightarrow> x < pow2 (binade_below n e x + 1)"
proof (induction n arbitrary: e)
  case 0
  then show ?case by simp
next
  case (Suc n)
  from Suc.prems have no: "\<not> pow2 e \<le> x" by (auto split: if_splits)
  then have r: "binade_below (Suc n) e x = binade_below n (e - 1) x" by simp
  show ?case
  proof (cases "binade_below n (e - 1) x < e - 1")
    case True
    from Suc.IH [OF True] r show ?thesis by simp
  next
    case False
    with binade_below_le [of n "e - 1" x] have "binade_below n (e - 1) x = e - 1" by simp
    with r no show ?thesis by simp
  qed
qed

lemma pow2_pos: "0 < pow2 e"
  by (simp add: pow2_powi)

lemma pow2_add: "pow2 (a + b) = pow2 a * pow2 b"
  by (simp add: pow2_powi power_int_add)

lemma round_half_even_le: "y < of_int k \<Longrightarrow> round_half_even y \<le> k"
proof -
  assume "y < of_int k"
  then have "\<lfloor>y\<rfloor> < k" by (simp add: floor_less_iff)
  then show ?thesis by (auto simp: round_half_even_def Let_def)
qed

lemma double_gt_threshold:
  assumes "double z > double (3 / 10)"
  shows "double z > 3 / 10"
proof -
  let ?e = "double_exponent z"
  let ?q = "pow2 (?e - 52)"
  let ?m = "round_half_even (z / ?q)"
  have dz: "double z = of_int ?m * ?q" by (simp add: double_def)
  have e_le: "?e \<le> 1023" unfolding double_exponent_def by (rule binade_below_le)
  show ?thesis
  proof (cases "- 2 \<le> ?e")
    case True
    define N where "N = ?m * 2 ^ nat (?e + 2)"
    have "?q * 2 ^ 54 = pow2 (?e - 52) * pow2 54" by (simp add: pow2_def)
    also have "\<dots> = pow2 ((?e - 52) + 54)" by (rule pow2_add [symmetric])
    also have "\<dots> = pow2 (?e + 2)" by (rule arg_cong [where f = pow2]) simp
    also have "\<dots> = 2 ^ nat (?e + 2)" using True by (simp add: pow2_def)
    finally have q: "?q * 2 ^ 54 = 2 ^ nat (?e + 2)" .
    have "double z * 2 ^ 54 = of_int ?m * (?q * 2 ^ 54)" by (simp add: dz)
    also have "\<dots> = of_int ?m * 2 ^ nat (?e + 2)" by (simp only: q)
    also have "\<dots> = of_int N" by (simp add: N_def)
    finally have N: "double z * 2 ^ 54 = of_int N" .
    from assms have "double z * 2 ^ 54 > 5404319552844595" by (simp add: double_3_10)
    with N have "of_int N > (5404319552844595 :: real)" by simp
    then have "N > 5404319552844595" by linarith
    then have "N \<ge> 5404319552844596" by simp
    then have "of_int N \<ge> (5404319552844596 :: real)" by linarith
    with N have "double z * 2 ^ 54 \<ge> 5404319552844596" by simp
    then show ?thesis by simp
  next
    case False
    then have e3: "?e + 1 \<le> - 2" by simp
    from False e_le have "binade_below 2045 1023 \<bar>z\<bar> < 1023" by (simp add: double_exponent_def)
    then have "\<bar>z\<bar> < pow2 (binade_below 2045 1023 \<bar>z\<bar> + 1)" by (rule binade_below_less)
    then have zlt: "\<bar>z\<bar> < pow2 (?e + 1)" by (simp add: double_exponent_def)
    have "pow2 (?e + 1) = pow2 ((?e - 52) + 53)" by (rule arg_cong [where f = pow2]) simp
    also have "\<dots> = pow2 (?e - 52) * pow2 53" by (rule pow2_add)
    finally have "pow2 (?e + 1) = pow2 (?e - 52) * pow2 53" .
    then have split: "pow2 (?e + 1) = ?q * 2 ^ 53" by (simp add: pow2_def)
    have "z / ?q \<le> \<bar>z\<bar> / ?q" using pow2_pos [of "?e - 52"] by (simp add: divide_right_mono)
    also have "\<dots> < 2 ^ 53"
    proof -
      from zlt have "\<bar>z\<bar> < ?q * 2 ^ 53" by (simp only: split)
      then show ?thesis using pow2_pos [of "?e - 52"] by (simp add: pos_divide_less_eq mult.commute)
    qed
    finally have "z / ?q < of_int (2 ^ 53)" by simp
    then have "?m \<le> 2 ^ 53" by (rule round_half_even_le)
    then have "(of_int ?m :: real) \<le> of_int (2 ^ 53)" by (simp only: of_int_le_iff)
    then have "(of_int ?m :: real) \<le> 2 ^ 53" by simp
    then have "double z \<le> 2 ^ 53 * ?q" using pow2_pos [of "?e - 52"] by (simp add: dz)
    also have "\<dots> = pow2 (?e + 1)" by (simp add: split)
    also have "\<dots> \<le> pow2 (- 2)" using e3 by (rule pow2_mono)
    also have "\<dots> = 1 / 4" by (simp add: pow2_def)
    finally have "double z \<le> 1 / 4" .
    with assms show ?thesis by (simp add: double_3_10)
  qed
qed

lemma double_threshold: "double (3 / 10) < double z \<longleftrightarrow> 3 / 10 < double z"
proof
  assume "double (3 / 10) < double z"
  then show "3 / 10 < double z" by (rule double_gt_threshold)
next
  assume "3 / 10 < double z"
  moreover have "double (3 / 10) < (3 / 10 :: real)" by (simp add: double_3_10)
  ultimately show "double (3 / 10) < double z" by simp
qed

section \<open>The OCR-confusion detector\<close>

lemma ocr_normalize_spec: "ocr_normalize y = map spec_ocr_digit y"
  by (simp add: ocr_normalize_def spec_ocr_digit_def ocr_to_digit_def u_def)

lemma length_four: "length (y::nat list) = 4 \<Longrightarrow> \<exists>a b c d. y = [a, b, c, d]"
  by (auto simp: length_Suc_conv numeral_eq_Suc)

lemma is_ocr_error_norm:
  "is_ocr_error [a, b, c, d] [e, f, g, h] =
     (case spec_diffs [a, b, c, d] [e, f, g, h] of
        [] \<Rightarrow> True | [x] \<Rightarrow> True
      | [(a1, b1), (a2, b2)] \<Rightarrow> is_error_pair a1 a2 b1 b2
      | _ \<Rightarrow> False)"
  unfolding is_ocr_error_def ocr_normalize_spec diff_positions_def spec_diffs_def Let_def
  by simp

lemma is_error_pair_iff:
  "is_error_pair a1 a2 b1 b2 \<longleftrightarrow>
      (\<exists>(x, y) \<in> set ocr_errors.
         (a1 = x \<and> b1 = y \<and> a2 = y \<and> b2 = x) \<or> (a1 = y \<and> b1 = x \<and> a2 = x \<and> b2 = y))"
  by (simp add: is_error_pair_def list_ex_iff)

text \<open>
  Claim C3, amended. \<open>is_ocr_error\<close> is false unless both years have length 4. Otherwise
  both years are normalised character by character with the map O,o,D,d to 0; I,i,l to 1;
  Z,z to 2; S,s to 5; G,g to 6; B,b to 8. With no or exactly one differing position of the
  normalised years the result is true; with exactly two it is true exactly when the
  characters at the two positions are one pair of the table \<open>ocr_errors\<close>, in one order at
  the first position and in the other order at the second; and for every pair of years
  whose normalised forms differ in three or more positions it is false. The positions
  counted are those of the normalised years: years that differ in three or four
  characters as they are written can be equal after the normalisation, and the result is
  then true.
\<close>

theorem is_ocr_error_tiers:
  "(length year1 \<noteq> 4 \<or> length year2 \<noteq> 4 \<longrightarrow> \<not> is_ocr_error year1 year2) \<and>
   ocr_normalize year1 = map spec_ocr_digit year1 \<and>
   ocr_normalize year2 = map spec_ocr_digit year2 \<and>
   (length year1 = 4 \<and> length year2 = 4 \<longrightarrow>
      (case spec_diffs year1 year2 of
         [] \<Rightarrow> is_ocr_error year1 year2
       | [d] \<Rightarrow> is_ocr_error year1 year2
       | [(a1, b1), (a2, b2)] \<Rightarrow>
           is_ocr_error year1 year2 \<longleftrightarrow>
             (\<exists>(x, y) \<in> set ocr_errors.
                (a1 = x \<and> b1 = y \<and> a2 = y \<and> b2 = x) \<or> (a1 = y \<and> b1 = x \<and> a2 = x \<and> b2 = y))
       | _ \<Rightarrow> \<not> is_ocr_error year1 year2)) \<and>
   (3 \<le> length (spec_diffs year1 year2) \<longrightarrow> \<not> is_ocr_error year1 year2)"
proof (intro conjI impI)
  assume "length year1 \<noteq> 4 \<or> length year2 \<noteq> 4"
  then show "\<not> is_ocr_error year1 year2"
    unfolding is_ocr_error_def by simp
next
  show "ocr_normalize year1 = map spec_ocr_digit year1" by (rule ocr_normalize_spec)
next
  show "ocr_normalize year2 = map spec_ocr_digit year2" by (rule ocr_normalize_spec)
next
  assume "length year1 = 4 \<and> length year2 = 4"
  then have "\<exists>a b c d. year1 = [a, b, c, d]" and "\<exists>e f g h. year2 = [e, f, g, h]"
    by (simp_all add: length_four)
  then obtain a b c d e f g h where y: "year1 = [a, b, c, d]" "year2 = [e, f, g, h]"
    by auto
  show "case spec_diffs year1 year2 of
         [] \<Rightarrow> is_ocr_error year1 year2
       | [d] \<Rightarrow> is_ocr_error year1 year2
       | [(a1, b1), (a2, b2)] \<Rightarrow>
           is_ocr_error year1 year2 \<longleftrightarrow>
             (\<exists>(x, y) \<in> set ocr_errors.
                (a1 = x \<and> b1 = y \<and> a2 = y \<and> b2 = x) \<or> (a1 = y \<and> b1 = x \<and> a2 = x \<and> b2 = y))
       | _ \<Rightarrow> \<not> is_ocr_error year1 year2"
    unfolding y is_ocr_error_norm is_error_pair_iff
    by (simp split: list.split prod.split)
next
  assume three: "3 \<le> length (spec_diffs year1 year2)"
  show "\<not> is_ocr_error year1 year2"
  proof (cases "length year1 = 4 \<and> length year2 = 4")
    case False
    then show ?thesis unfolding is_ocr_error_def by simp
  next
    case True
    then have "\<exists>a b c d. year1 = [a, b, c, d]" and "\<exists>e f g h. year2 = [e, f, g, h]"
      by (simp_all add: length_four)
    then obtain a b c d e f g h where y: "year1 = [a, b, c, d]" "year2 = [e, f, g, h]"
      by auto
    from three show ?thesis
      unfolding y is_ocr_error_norm
      by (auto split: list.split prod.split)
  qed
qed

lemma spec_diffs_2017_2071:
  "spec_diffs (u ''2017'') (u ''2071'') = [(cp CHR ''1'', cp CHR ''7''), (cp CHR ''7'', cp CHR ''1'')]"
  by (simp add: u_def spec_diffs_def spec_ocr_digit_def)

theorem is_ocr_error_tiers_witness:
  "is_ocr_error (u ''2017'') (u ''2071'')"
  using is_ocr_error_tiers [of "u ''2017''" "u ''2071''"]
  by (simp add: spec_diffs_2017_2071 ocr_errors_def) (simp add: u_def)

lemma ocr_2017_2071: "is_ocr_error (u ''2017'') (u ''2071'')"
  by (simp add: is_ocr_error_def ocr_normalize_def ocr_to_digit_def diff_positions_def
        is_error_pair_def ocr_errors_def u_def)

lemma is_error_pair_sym: "is_error_pair a1 a2 b1 b2 = is_error_pair b1 b2 a1 a2"
  unfolding is_error_pair_def list_ex_iff by (auto simp: disj_commute)

lemma diff_positions_sym: "diff_positions n1 n2 = diff_positions n2 n1"
  unfolding diff_positions_def by (rule filter_cong) auto

text \<open>
  Claim C10. \<open>is_ocr_error\<close> is symmetric in its two arguments, also where exactly two
  positions differ and the table of confusion pairs is consulted.
\<close>

theorem is_ocr_error_symmetric: "is_ocr_error y1 y2 = is_ocr_error y2 y1"
proof -
  let ?n1 = "ocr_normalize y1" and ?n2 = "ocr_normalize y2"
  have d: "diff_positions ?n2 ?n1 = diff_positions ?n1 ?n2"
    by (rule diff_positions_sym)
  have e: "(?n2 = ?n1) = (?n1 = ?n2)"
    by (rule eq_commute)
  have l: "(length y2 \<noteq> 4 \<or> length y1 \<noteq> 4) = (length y1 \<noteq> 4 \<or> length y2 \<noteq> 4)"
    by (rule disj_commute)
  have p: "is_error_pair (?n2 ! p) (?n2 ! q) (?n1 ! p) (?n1 ! q) =
           is_error_pair (?n1 ! p) (?n1 ! q) (?n2 ! p) (?n2 ! q)" for p q
    by (rule is_error_pair_sym)
  show ?thesis
    unfolding is_ocr_error_def Let_def d e l p ..
qed

theorem is_ocr_error_symmetric_witness:
  "is_ocr_error (u ''2071'') (u ''2017'')"
  using is_ocr_error_symmetric [of "u ''2071''" "u ''2017''"] ocr_2017_2071
  by simp

section \<open>The similarity scores\<close>

lemma starts_with_iff: "starts_with s p \<longleftrightarrow> occurs_at s p 0"
  by (induction s p rule: starts_with.induct) (auto simp: occurs_at_def)

lemma occurs_at_Cons_Suc: "occurs_at (c # cs) sub (Suc i) \<longleftrightarrow> occurs_at cs sub i"
  by (simp add: occurs_at_def)

lemma occurs_at_Nil: "occurs_at [] sub i \<longleftrightarrow> sub = [] \<and> i = 0"
  by (auto simp: occurs_at_def)

lemma str_contains_iff: "str_contains s sub \<longleftrightarrow> (\<exists>i. occurs_at s sub i)"
proof (induction s)
  case Nil
  show ?case by (auto simp: occurs_at_Nil)
next
  case (Cons c cs)
  have "(\<exists>i. occurs_at (c # cs) sub i) \<longleftrightarrow> occurs_at (c # cs) sub 0 \<or> (\<exists>i. occurs_at cs sub i)"
    by (metis occurs_at_Cons_Suc not0_implies_Suc)
  then show ?case using Cons by (simp add: starts_with_iff)
qed

lemma find_from_first:
  "occurs_at s sub i \<Longrightarrow> (\<forall>j<i. \<not> occurs_at s sub j) \<Longrightarrow> find_from k s sub = int (k + i)"
proof (induction s arbitrary: i k)
  case Nil
  then show ?case by (simp add: occurs_at_Nil)
next
  case (Cons c cs)
  show ?case
  proof (cases i)
    case 0
    with Cons.prems show ?thesis by (simp add: starts_with_iff)
  next
    case (Suc m)
    from Cons.prems(1) Suc have m: "occurs_at cs sub m"
      by (simp add: occurs_at_Cons_Suc)
    have least: "\<forall>j<m. \<not> occurs_at cs sub j"
    proof (intro allI impI)
      fix j assume "j < m"
      then have "Suc j < i" using Suc by simp
      with Cons.prems(2) have "\<not> occurs_at (c # cs) sub (Suc j)" by blast
      then show "\<not> occurs_at cs sub j" by (simp add: occurs_at_Cons_Suc)
    qed
    from Cons.prems(2) Suc have not0: "\<not> occurs_at (c # cs) sub 0"
      by simp
    from Cons.IH [OF m least, of "Suc k"] not0 Suc show ?thesis
      by (simp add: starts_with_iff)
  qed
qed

lemma str_find_first:
  "occurs_at s sub i \<Longrightarrow> (\<forall>j<i. \<not> occurs_at s sub j) \<Longrightarrow> str_find s sub = int i"
  using find_from_first [of s sub i 0] by (simp add: str_find_def)

text \<open>
  Claim C2. With \<open>a\<close> the citation author and \<open>r\<close> the reference author, both stripped
  and lower-cased, and \<open>t\<close> the lower-cased reference text: the author score is 1.0 if
  \<open>a = r\<close>; else 0.9 if one occurs in the other; else, if \<open>a\<close> occurs in \<open>t\<close>, 0.8 when its
  first occurrence is before index 100, 0.6 when it is before index 200 and 0.4 otherwise;
  else the \<open>difflib\<close> ratio of \<open>a\<close> and \<open>r\<close> times 0.5. The year score is 1.0 if the
  extracted reference year equals the citation year, 0.9 if the two are an OCR-confusable
  pair, 0.8 if the citation year occurs in the reference text, and 0.0 otherwise.
\<close>

theorem score_tiers:
  assumes a: "a = str_lower L (strip citation_author)"
      and t: "t = str_lower L reference_text"
      and r: "r = str_lower L (strip ref_author)"
  shows
   "(a = r \<longrightarrow> calculate_author_match_score L citation_author reference_text ref_author = 1.0) \<and>
    (a \<noteq> r \<and> ((\<exists>i. occurs_at r a i) \<or> (\<exists>i. occurs_at a r i)) \<longrightarrow>
       calculate_author_match_score L citation_author reference_text ref_author = 0.9) \<and>
    (a \<noteq> r \<and> \<not> (\<exists>i. occurs_at r a i) \<and> \<not> (\<exists>i. occurs_at a r i) \<longrightarrow>
       (\<forall>i. occurs_at t a i \<and> (\<forall>j<i. \<not> occurs_at t a j) \<longrightarrow>
          calculate_author_match_score L citation_author reference_text ref_author =
            (if i < 100 then 0.8 else if i < 200 then 0.6 else 0.4)) \<and>
       (\<not> (\<exists>i. occurs_at t a i) \<longrightarrow>
          calculate_author_match_score L citation_author reference_text ref_author =
            seq_ratio L a r * 0.5)) \<and>
    (citation_year \<noteq> [] \<and> ref_year = Some citation_year \<longrightarrow>
       calculate_year_match_score citation_year reference_text ref_year = 1.0) \<and>
    (ref_year \<noteq> Some citation_year \<and> (\<exists>y. ref_year = Some y \<and> is_ocr_error citation_year y) \<longrightarrow>
       calculate_year_match_score citation_year reference_text ref_year = 0.9) \<and>
    (ref_year \<noteq> Some citation_year \<and> \<not> (\<exists>y. ref_year = Some y \<and> is_ocr_error citation_year y) \<longrightarrow>
       calculate_year_match_score citation_year reference_text ref_year =
         (if \<exists>i. occurs_at reference_text citation_year i then 0.8 else 0.0))"
proof (intro conjI impI)
  assume "a = r"
  then show "calculate_author_match_score L citation_author reference_text ref_author = 1.0"
    using a r by (simp add: calculate_author_match_score_def)
next
  assume "a \<noteq> r \<and> ((\<exists>i. occurs_at r a i) \<or> (\<exists>i. occurs_at a r i))"
  then show "calculate_author_match_score L citation_author reference_text ref_author = 0.9"
    unfolding calculate_author_match_score_def Let_def a [symmetric] t [symmetric] r [symmetric]
    by (simp add: str_contains_iff)
next
  assume h: "a \<noteq> r \<and> \<not> (\<exists>i. occurs_at r a i) \<and> \<not> (\<exists>i. occurs_at a r i)"
  show "\<forall>i. occurs_at t a i \<and> (\<forall>j<i. \<not> occurs_at t a j) \<longrightarrow>
          calculate_author_match_score L citation_author reference_text ref_author =
            (if i < 100 then 0.8 else if i < 200 then 0.6 else 0.4)"
  proof (intro allI impI)
    fix i assume i: "occurs_at t a i \<and> (\<forall>j<i. \<not> occurs_at t a j)"
    then have f: "str_find t a = int i" by (simp add: str_find_first)
    from i have c: "\<exists>i. occurs_at t a i" by auto
    show "calculate_author_match_score L citation_author reference_text ref_author =
            (if i < 100 then 0.8 else if i < 200 then 0.6 else 0.4)"
      using h c unfolding calculate_author_match_score_def Let_def a [symmetric] t [symmetric] r [symmetric]
      by (simp add: str_contains_iff f)
  qed
next
  assume h: "a \<noteq> r \<and> \<not> (\<exists>i. occurs_at r a i) \<and> \<not> (\<exists>i. occurs_at a r i)"
  assume n: "\<not> (\<exists>i. occurs_at t a i)"
  show "calculate_author_match_score L citation_author reference_text ref_author = seq_ratio L a r * 0.5"
    using h n unfolding calculate_author_match_score_def Let_def a [symmetric] t [symmetric] r [symmetric]
    by (simp add: str_contains_iff)
next
  assume "citation_year \<noteq> [] \<and> ref_year = Some citation_year"
  then show "calculate_year_match_score citation_year reference_text ref_year = 1.0"
    by (simp add: calculate_year_match_score_def)
next
  assume h: "ref_year \<noteq> Some citation_year \<and> (\<exists>y. ref_year = Some y \<and> is_ocr_error citation_year y)"
  then obtain y where y: "ref_year = Some y" "is_ocr_error citation_year y" by blast
  then have "y \<noteq> []" by (auto simp: is_ocr_error_def)
  with h y show "calculate_year_match_score citation_year reference_text ref_year = 0.9"
    by (simp add: calculate_year_match_score_def)
next
  assume h: "ref_year \<noteq> Some citation_year \<and> \<not> (\<exists>y. ref_year = Some y \<and> is_ocr_error citation_year y)"
  then show "calculate_year_match_score citation_year reference_text ref_year =
         (if \<exists>i. occurs_at reference_text citation_year i then 0.8 else 0.0)"
    by (cases ref_year) (auto simp: calculate_year_match_score_def str_contains_iff)
qed

lemma lower_Smith: "str_lower ascii_lib (strip (u ''Smith'')) = u ''smith''"
  by (simp add: ascii_lib_def ascii_lower_def strip_def isspace_def u_def)

lemma lower_Smith_J: "str_lower ascii_lib (strip (u ''Smith J'')) = u ''smith j''"
  by (simp add: ascii_lib_def ascii_lower_def strip_def isspace_def u_def)

lemma ocr_2O2O: "is_ocr_error (u ''2O2O'') (u ''2020'')"
  by (simp add: is_ocr_error_def ocr_normalize_def ocr_to_digit_def u_def)

theorem score_tiers_witness:
  "calculate_author_match_score ascii_lib (u ''Smith'') (u ''Smith, J. (2020).'') (u ''Smith'') = 1.0 \<and>
   calculate_author_match_score ascii_lib (u ''Smith'') (u ''Smith J. Title. 2020.'') (u ''Smith J'') = 0.9 \<and>
   calculate_year_match_score (u ''2O2O'') (u ''Smith, J. (2020).'') (Some (u ''2020'')) = 0.9"
proof (intro conjI)
  show "calculate_author_match_score ascii_lib (u ''Smith'') (u ''Smith, J. (2020).'') (u ''Smith'') = 1.0"
    using score_tiers [OF refl refl refl, where L = ascii_lib and citation_author = "u ''Smith''"
                        and ref_author = "u ''Smith''" and reference_text = "u ''Smith, J. (2020).''"]
    by blast
next
  have ne: "u ''smith'' \<noteq> u ''smith j''" by (simp add: u_def)
  have "occurs_at (u ''smith j'') (u ''smith'') 0" by (simp add: occurs_at_def u_def)
  then have ex: "\<exists>i. occurs_at (u ''smith j'') (u ''smith'') i" ..
  show "calculate_author_match_score ascii_lib (u ''Smith'') (u ''Smith J. Title. 2020.'') (u ''Smith J'') = 0.9"
    using score_tiers [OF refl refl refl, where L = ascii_lib and citation_author = "u ''Smith''"
                        and ref_author = "u ''Smith J''" and reference_text = "u ''Smith J. Title. 2020.''"]
          ne ex
    unfolding lower_Smith lower_Smith_J by blast
next
  have ne: "Some (u ''2020'') \<noteq> Some (u ''2O2O'')" by (simp add: u_def)
  show "calculate_year_match_score (u ''2O2O'') (u ''Smith, J. (2020).'') (Some (u ''2020'')) = 0.9"
    using score_tiers [OF refl refl refl, where citation_year = "u ''2O2O''" and ref_year = "Some (u ''2020'')"
                        and reference_text = "u ''Smith, J. (2020).''"]
          ne ocr_2O2O
    by blast
qed

section \<open>The parsers return non-empty authors and years of four characters\<close>

lemma lazy_group_Some:
  "lazy_group ok k pre s = Some (g, r) \<Longrightarrow>
     \<exists>n. 0 < n \<and> n \<le> length s \<and> g = pre @ take n s \<and> k (drop n s) = Some r"
proof (induction s arbitrary: pre)
  case Nil
  then show ?case by simp
next
  case (Cons c cs)
  from Cons.prems have ok: "ok c" by (auto split: if_splits)
  show ?case
  proof (cases "k cs")
    case None
    with Cons.prems ok have "lazy_group ok k (pre @ [c]) cs = Some (g, r)" by simp
    from Cons.IH [OF this] obtain n where
      "0 < n" "n \<le> length cs" "g = (pre @ [c]) @ take n cs" "k (drop n cs) = Some r" by blast
    then show ?thesis by (intro exI [of _ "Suc n"]) simp
  next
    case (Some r')
    with Cons.prems ok have "g = pre @ [c]" "r' = r" by auto
    with Some show ?thesis by (intro exI [of _ "Suc 0"]) simp
  qed
qed

lemma first_some_Some: "first_some f xs = Some y \<Longrightarrow> \<exists>x \<in> set xs. f x = Some y"
  by (induction xs) (auto split: option.splits)

lemma re_search_Some: "re_search m s = Some y \<Longrightarrow> \<exists>s'. m s' = Some y"
  by (induction s) (auto split: option.splits)

lemma parenthesized_year_length: "parenthesized_year l r s = Some y \<Longrightarrow> length y = 4"
  by (auto simp: parenthesized_year_def split: list.splits if_splits)

lemma four_digits_length:
  "(case r of
      a # b # c # d # rest \<Rightarrow> if P a b c d rest then Some [a, b, c, d] else None
    | _ \<Rightarrow> None) = Some y \<Longrightarrow> length y = 4"
  by (simp split: list.splits if_splits) auto

lemma year_pattern_length:
  assumes "year_pattern L lead trail s = Some y"
  shows "length y = 4"
proof -
  from assms obtain r where
    "(case r of
        a # b # c # d # rest \<Rightarrow>
          if re_digit L a \<and> re_digit L b \<and> re_digit L c \<and> re_digit L d \<and> trail rest
          then Some [a, b, c, d] else None
      | _ \<Rightarrow> None) = Some y"
    unfolding year_pattern_def by (blast dest: first_some_Some)
  then show ?thesis
    by (rule four_digits_length [where P = "\<lambda>a b c d rest. re_digit L a \<and> re_digit L b \<and> re_digit L c \<and> re_digit L d \<and> trail rest"])
qed

lemma strip_decomp: "dropWhile isspace s = strip s @ rev (takeWhile isspace (rev (dropWhile isspace s)))"
proof -
  let ?d = "dropWhile isspace s"
  have "rev (takeWhile isspace (rev ?d) @ dropWhile isspace (rev ?d)) = ?d"
    by (simp only: takeWhile_dropWhile_id rev_rev_ident)
  then show ?thesis by (simp only: rev_append strip_def)
qed

lemma strip_hd: "strip s = x # xs \<Longrightarrow> \<not> isspace x"
proof -
  assume a: "strip s = x # xs"
  obtain w where "dropWhile isspace s = strip s @ w"
    using strip_decomp [of s] by blast
  with a have d: "dropWhile isspace s = x # (xs @ w)" by simp
  then have "hd (dropWhile isspace s) = x" and "dropWhile isspace s \<noteq> []"
    by (simp_all only: list.sel list.distinct not_False_eq_True)
  then show ?thesis using hd_dropWhile [of isspace s] by blast
qed

lemma strip_nonempty: "\<not> isspace x \<Longrightarrow> strip (x # ys) \<noteq> []"
  by (auto simp: strip_def dropWhile_eq_Nil_conv)

lemma extract_citation_Some:
  assumes "extract_author_year_from_citation citation = (Some ca, Some cy)"
  shows "ca \<noteq> [] \<and> length cy = 4"
proof -
  let ?s = "strip citation"
  let ?k2 = "\<lambda>s. first_some (parenthesized_year (cp CHR ''('') (cp CHR '')'')) (after_spaces s)"
  from assms obtain k g where lg: "lazy_group re_dot k [] ?s = Some (g, cy)" and ca: "ca = strip g"
    and k: "k = parenthesized_year fw_lparen fw_rparen \<or> k = ?k2"
    unfolding extract_author_year_from_citation_def
    by (auto split: option.splits prod.splits)
  from lazy_group_Some [OF lg] obtain n where n: "0 < n" "n \<le> length ?s" "g = take n ?s"
    and r: "k (drop n ?s) = Some cy" by auto
  from n obtain x xs where s: "?s = x # xs" by (cases ?s) auto
  then have "\<not> isspace x" by (rule strip_hd)
  moreover from n s obtain m where "g = x # take m xs" by (cases n) auto
  ultimately have "ca \<noteq> []" using ca strip_nonempty by simp
  moreover have "length cy = 4"
    using k r by (auto dest!: first_some_Some dest: parenthesized_year_length)
  ultimately show ?thesis ..
qed

lemma extract_citation_cases:
  "extract_author_year_from_citation citation = (None, None) \<or>
   (\<exists>ca cy. extract_author_year_from_citation citation = (Some ca, Some cy))"
  unfolding extract_author_year_from_citation_def
  by (auto split: option.splits prod.splits)

lemma extracted_year_length: "extracted_year L ref = Some y \<Longrightarrow> length y = 4"
proof -
  assume "extracted_year L ref = Some y"
  then have "first_some (\<lambda>pattern. re_search pattern (strip_label L (entry_text ref))) (year_patterns L) = Some y"
    by (simp add: extracted_year_def extract_author_year_from_reference_def Let_def)
  then obtain p where "p \<in> set (year_patterns L)" "re_search p (strip_label L (entry_text ref)) = Some y"
    by (auto dest: first_some_Some)
  then obtain lead trail s where "year_pattern L lead trail s = Some y"
    by (auto simp: year_patterns_def dest!: re_search_Some)
  then show ?thesis by (rule year_pattern_length)
qed

section \<open>The matcher\<close>

lemma best_match_loop_step:
  "best_match_loop L ca cy ((i, ref) # rest) (bm, bs, by) =
     best_match_loop L ca cy rest
       (if has_author L ref \<and> combined_score L ca cy ref > bs
        then (Some (i, ref), combined_score L ca cy ref, extracted_year L ref)
        else (bm, bs, by))"
  by (simp add: has_author_def combined_score_def extracted_year_def total_score_def Let_def
           split: prod.split option.split)

text \<open>
  The state after the loop: either no entry beat the score the loop started with, and the
  state is unchanged; or the state holds the first entry of the list with the highest
  score among the scored entries.
\<close>

lemma best_match_loop_result:
  "(best_match_loop L ca cy xs (bm, bs, by) = (bm, bs, by) \<and>
      (\<forall>j < length xs. has_author L (snd (xs ! j)) \<longrightarrow> combined_score L ca cy (snd (xs ! j)) \<le> bs)) \<or>
   (\<exists>k < length xs.
      best_match_loop L ca cy xs (bm, bs, by) =
        (Some (xs ! k), combined_score L ca cy (snd (xs ! k)), extracted_year L (snd (xs ! k))) \<and>
      has_author L (snd (xs ! k)) \<and>
      bs < combined_score L ca cy (snd (xs ! k)) \<and>
      (\<forall>j < length xs. has_author L (snd (xs ! j)) \<longrightarrow>
          combined_score L ca cy (snd (xs ! j)) \<le> combined_score L ca cy (snd (xs ! k))) \<and>
      (\<forall>j < k. has_author L (snd (xs ! j)) \<longrightarrow>
          combined_score L ca cy (snd (xs ! j)) < combined_score L ca cy (snd (xs ! k))))"
  (is "?P xs bm bs by")
proof (induction xs arbitrary: bm bs "by")
  case Nil
  show ?case by simp
next
  case (Cons x xs)
  obtain i ref where x: "x = (i, ref)" by (cases x)
  let ?s = "combined_score L ca cy"
  let ?h = "has_author L"
  show ?case
  proof (cases "?h ref \<and> ?s ref > bs")
    case True
    then have step: "best_match_loop L ca cy (x # xs) (bm, bs, by) =
        best_match_loop L ca cy xs (Some (i, ref), ?s ref, extracted_year L ref)"
      unfolding x best_match_loop_step by simp
    from Cons.IH [of "Some (i, ref)" "?s ref" "extracted_year L ref"]
    show ?thesis
    proof (elim disjE conjE exE)
      assume same: "best_match_loop L ca cy xs (Some (i, ref), ?s ref, extracted_year L ref) =
          (Some (i, ref), ?s ref, extracted_year L ref)"
        and le: "\<forall>j<length xs. ?h (snd (xs ! j)) \<longrightarrow> ?s (snd (xs ! j)) \<le> ?s ref"
      have "\<forall>j<length (x # xs). ?h (snd ((x # xs) ! j)) \<longrightarrow> ?s (snd ((x # xs) ! j)) \<le> ?s ref"
      proof (intro allI impI)
        fix j assume "j < length (x # xs)" "?h (snd ((x # xs) ! j))"
        then show "?s (snd ((x # xs) ! j)) \<le> ?s ref"
          using le x by (cases j) auto
      qed
      then show ?thesis
        using True step same x by (intro disjI2 exI [of _ 0]) simp
    next
      fix k
      assume k: "k < length xs"
        and res: "best_match_loop L ca cy xs (Some (i, ref), ?s ref, extracted_year L ref) =
            (Some (xs ! k), ?s (snd (xs ! k)), extracted_year L (snd (xs ! k)))"
        and h: "?h (snd (xs ! k))"
        and gt: "?s ref < ?s (snd (xs ! k))"
        and le: "\<forall>j<length xs. ?h (snd (xs ! j)) \<longrightarrow> ?s (snd (xs ! j)) \<le> ?s (snd (xs ! k))"
        and lt: "\<forall>j<k. ?h (snd (xs ! j)) \<longrightarrow> ?s (snd (xs ! j)) < ?s (snd (xs ! k))"
      have le': "\<forall>j<length (x # xs). ?h (snd ((x # xs) ! j)) \<longrightarrow>
          ?s (snd ((x # xs) ! j)) \<le> ?s (snd ((x # xs) ! Suc k))"
      proof (intro allI impI)
        fix j assume "j < length (x # xs)" "?h (snd ((x # xs) ! j))"
        then show "?s (snd ((x # xs) ! j)) \<le> ?s (snd ((x # xs) ! Suc k))"
          using le gt x by (cases j) auto
      qed
      have lt': "\<forall>j<Suc k. ?h (snd ((x # xs) ! j)) \<longrightarrow>
          ?s (snd ((x # xs) ! j)) < ?s (snd ((x # xs) ! Suc k))"
      proof (intro allI impI)
        fix j assume "j < Suc k" "?h (snd ((x # xs) ! j))"
        then show "?s (snd ((x # xs) ! j)) < ?s (snd ((x # xs) ! Suc k))"
          using lt gt x by (cases j) auto
      qed
      from True gt have "bs < ?s (snd ((x # xs) ! Suc k))" by simp
      then show ?thesis
        using k step res h le' lt' by (intro disjI2 exI [of _ "Suc k"]) simp
    qed
  next
    case False
    then have step: "best_match_loop L ca cy (x # xs) (bm, bs, by) =
        best_match_loop L ca cy xs (bm, bs, by)"
      unfolding x best_match_loop_step by auto
    from False have ref_le: "?h ref \<longrightarrow> ?s ref \<le> bs" by auto
    from Cons.IH [of bm bs "by"]
    show ?thesis
    proof (elim disjE conjE exE)
      assume same: "best_match_loop L ca cy xs (bm, bs, by) = (bm, bs, by)"
        and le: "\<forall>j<length xs. ?h (snd (xs ! j)) \<longrightarrow> ?s (snd (xs ! j)) \<le> bs"
      have "\<forall>j<length (x # xs). ?h (snd ((x # xs) ! j)) \<longrightarrow> ?s (snd ((x # xs) ! j)) \<le> bs"
      proof (intro allI impI)
        fix j assume "j < length (x # xs)" "?h (snd ((x # xs) ! j))"
        then show "?s (snd ((x # xs) ! j)) \<le> bs"
          using le ref_le x by (cases j) auto
      qed
      then show ?thesis using step same by (intro disjI1) simp
    next
      fix k
      assume k: "k < length xs"
        and res: "best_match_loop L ca cy xs (bm, bs, by) =
            (Some (xs ! k), ?s (snd (xs ! k)), extracted_year L (snd (xs ! k)))"
        and h: "?h (snd (xs ! k))"
        and gt: "bs < ?s (snd (xs ! k))"
        and le: "\<forall>j<length xs. ?h (snd (xs ! j)) \<longrightarrow> ?s (snd (xs ! j)) \<le> ?s (snd (xs ! k))"
        and lt: "\<forall>j<k. ?h (snd (xs ! j)) \<longrightarrow> ?s (snd (xs ! j)) < ?s (snd (xs ! k))"
      have le': "\<forall>j<length (x # xs). ?h (snd ((x # xs) ! j)) \<longrightarrow>
          ?s (snd ((x # xs) ! j)) \<le> ?s (snd ((x # xs) ! Suc k))"
      proof (intro allI impI)
        fix j assume "j < length (x # xs)" "?h (snd ((x # xs) ! j))"
        then show "?s (snd ((x # xs) ! j)) \<le> ?s (snd ((x # xs) ! Suc k))"
          using le gt ref_le x by (cases j) auto
      qed
      have lt': "\<forall>j<Suc k. ?h (snd ((x # xs) ! j)) \<longrightarrow>
          ?s (snd ((x # xs) ! j)) < ?s (snd ((x # xs) ! Suc k))"
      proof (intro allI impI)
        fix j assume "j < Suc k" "?h (snd ((x # xs) ! j))"
        then show "?s (snd ((x # xs) ! j)) < ?s (snd ((x # xs) ! Suc k))"
          using lt gt ref_le x by (cases j) auto
      qed
      show ?thesis
        using k step res h gt le' lt' by (intro disjI2 exI [of _ "Suc k"]) simp
    qed
  qed
qed

lemma zip_upt_nth: "k < length refs \<Longrightarrow> zip [0 ..< length refs] refs ! k = (k, refs ! k)"
  by simp

lemma map_result:
  assumes c: "extract_author_year_from_citation citation = (Some ca, Some cy)"
  shows "map_author_year_citation_to_reference L citation refs =
     (case best_match_loop L ca cy (zip [0 ..< length refs] refs) (None, 0, None) of
        (None, s, y) \<Rightarrow> None
      | (Some (i, r), s, y) \<Rightarrow>
          if s > double 0.3
          then Some \<lparr> reference = r, reference_index = i,
                      corrected_citation =
                        (case y of None \<Rightarrow> citation
                         | Some ry \<Rightarrow> if ry \<noteq> [] \<and> ry \<noteq> cy then ca @ [fw_lparen] @ ry @ [fw_rparen] else citation),
                      original_citation = citation \<rparr>
          else None)"
proof -
  from extract_citation_Some [OF c] have "ca \<noteq> []" "cy \<noteq> []" by auto
  then show ?thesis
    unfolding map_author_year_citation_to_reference_def c
    by (simp split: prod.split option.split)
qed

lemma Max_scores:
  assumes k: "k < length refs" and h: "has_author L (refs ! k)"
    and le: "\<forall>j < length refs. has_author L (refs ! j) \<longrightarrow> f (refs ! j) \<le> f (refs ! k)"
  shows "Max (f ` set (filter (has_author L) refs)) = f (refs ! k)"
proof (rule Max_eqI)
  show "finite (f ` set (filter (has_author L) refs))" by simp
  show "f (refs ! k) \<in> f ` set (filter (has_author L) refs)"
    using k h by auto
  fix v assume "v \<in> f ` set (filter (has_author L) refs)"
  then obtain r where "r \<in> set refs" "has_author L r" "v = f r" by auto
  then show "v \<le> f (refs ! k)" using le by (auto simp: in_set_conv_nth)
qed

lemma has_author_iff:
  "has_author L r \<longleftrightarrow>
     (\<exists>a y. extract_author_year_from_reference L (entry_text r) = (Some a, y) \<and> a \<noteq> [])"
proof (cases "extract_author_year_from_reference L (entry_text r)")
  case (Pair a y)
  then show ?thesis by (cases a) (simp_all add: has_author_def)
qed

lemma combined_score_is_double:
  "has_author L r \<Longrightarrow> \<exists>z. combined_score L ca cy r = double z"
  by (auto simp: has_author_iff combined_score_def)

lemma Max_scores_threshold:
  assumes ne: "filter (has_author L) refs \<noteq> []"
  shows "double 0.3 < Max (combined_score L ca cy ` set (filter (has_author L) refs)) \<longleftrightarrow>
         0.3 < Max (combined_score L ca cy ` set (filter (has_author L) refs))"
proof -
  let ?s = "combined_score L ca cy"
  let ?C = "filter (has_author L) refs"
  from ne have "set ?C \<noteq> {}" by (simp only: set_empty not_False_eq_True)
  then have "Max (?s ` set ?C) \<in> ?s ` set ?C" by (intro Max_in) simp_all
  then obtain r where "has_author L r" and r: "Max (?s ` set ?C) = ?s r" by auto
  then obtain z where "?s r = double z" using combined_score_is_double by blast
  with r have z: "Max (?s ` set ?C) = double z" by simp
  show ?thesis unfolding z by (rule double_threshold)
qed

text \<open>
  For a citation that the parser splits into author and year: a match is returned exactly
  when some entry is scored and the highest score of the scored entries is greater than
  the float \<open>0.3\<close>, and the entry returned is the first one with the highest score.
\<close>

lemma matcher_first_maximum:
  assumes c: "extract_author_year_from_citation citation = (Some ca, Some cy)"
  shows "(map_author_year_citation_to_reference L citation refs \<noteq> None \<longleftrightarrow>
           filter (has_author L) refs \<noteq> [] \<and>
           Max (combined_score L ca cy ` set (filter (has_author L) refs)) > double 0.3) \<and>
         (\<forall>m. map_author_year_citation_to_reference L citation refs = Some m \<longrightarrow>
           reference_index m < length refs \<and>
           reference m = refs ! reference_index m \<and>
           has_author L (reference m) \<and>
           combined_score L ca cy (reference m) =
             Max (combined_score L ca cy ` set (filter (has_author L) refs)) \<and>
           (\<forall>j < reference_index m. has_author L (refs ! j) \<longrightarrow>
              combined_score L ca cy (refs ! j) < combined_score L ca cy (reference m)))"
proof -
  let ?xs = "zip [0 ..< length refs] refs"
  let ?s = "combined_score L ca cy"
  let ?C = "filter (has_author L) refs"
  note res = map_result [OF c, of L refs]
  from best_match_loop_result [of L ca cy ?xs None 0 None]
  show ?thesis
  proof (elim disjE conjE exE)
    assume same: "best_match_loop L ca cy ?xs (None, 0, None) = (None, 0, None)"
      and le: "\<forall>j<length ?xs. has_author L (snd (?xs ! j)) \<longrightarrow> ?s (snd (?xs ! j)) \<le> 0"
    from res same have none: "map_author_year_citation_to_reference L citation refs = None" by simp
    have "\<not> (?C \<noteq> [] \<and> Max (?s ` set ?C) > double 0.3)"
    proof
      assume a: "?C \<noteq> [] \<and> Max (?s ` set ?C) > double 0.3"
      then have "set ?C \<noteq> {}" by (simp only: set_empty not_False_eq_True)
      then have "Max (?s ` set ?C) \<in> ?s ` set ?C" by (intro Max_in) simp_all
      then obtain r where r: "r \<in> set refs" "has_author L r" "?s r = Max (?s ` set ?C)" by auto
      then obtain j where "j < length refs" "refs ! j = r" by (auto simp: in_set_conv_nth)
      with le r have "?s r \<le> 0" by auto
      with r a show False by (simp add: double_3_10)
    qed
    with none show ?thesis by simp
  next
    fix k
    assume k: "k < length ?xs"
      and loop: "best_match_loop L ca cy ?xs (None, 0, None) =
          (Some (?xs ! k), ?s (snd (?xs ! k)), extracted_year L (snd (?xs ! k)))"
      and h: "has_author L (snd (?xs ! k))"
      and le: "\<forall>j<length ?xs. has_author L (snd (?xs ! j)) \<longrightarrow> ?s (snd (?xs ! j)) \<le> ?s (snd (?xs ! k))"
      and lt: "\<forall>j<k. has_author L (snd (?xs ! j)) \<longrightarrow> ?s (snd (?xs ! j)) < ?s (snd (?xs ! k))"
    from k have k': "k < length refs" by simp
    then have xk: "?xs ! k = (k, refs ! k)" by simp
    from h xk have h': "has_author L (refs ! k)" by simp
    from le have le': "\<forall>j<length refs. has_author L (refs ! j) \<longrightarrow> ?s (refs ! j) \<le> ?s (refs ! k)"
      using xk by simp
    from lt k' have lt': "\<forall>j<k. has_author L (refs ! j) \<longrightarrow> ?s (refs ! j) < ?s (refs ! k)"
      using xk by simp
    have mx: "Max (?s ` set ?C) = ?s (refs ! k)"
      using k' h' le' by (rule Max_scores)
    have ne: "?C \<noteq> []"
      using k' h' by (auto simp: filter_empty_conv)
    show ?thesis
    proof (cases "?s (refs ! k) > double 0.3")
      case True
      with res loop xk obtain cc where
        m: "map_author_year_citation_to_reference L citation refs =
              Some \<lparr> reference = refs ! k, reference_index = k,
                     corrected_citation = cc, original_citation = citation \<rparr>"
        by simp
      show ?thesis
        unfolding m using True mx ne k' h' lt' by simp
    next
      case False
      with res loop xk have "map_author_year_citation_to_reference L citation refs = None"
        by simp
      with False mx show ?thesis by simp
    qed
  qed
qed

text \<open>
  Claim C1, amended. The references that are scored are those from whose text a
  non-empty author is extracted; the loop passes over the others. The combined score of a
  reference is \<open>author_score * 0.6 + year_score * 0.4\<close>, computed on floats from the author
  and the year extracted from its text. For every citation and every list of references,
  \<open>map_author_year_citation_to_reference\<close> returns a match exactly when there is a scored
  reference and the maximum of the combined score over the scored references is greater
  than 0.3 (the float or the number 3/10: it makes no difference); the reference it
  returns is the first one in the list that attains this maximum; and a citation that no
  pattern of the citation parser matches, which is every citation that is not split into
  an author and a year, gets \<open>None\<close>, whatever the references are.
\<close>

theorem map_selects_first_maximum:
  "(extract_author_year_from_citation citation = (None, None) \<longrightarrow>
      map_author_year_citation_to_reference L citation refs = None) \<and>
   (extract_author_year_from_citation citation = (None, None) \<or>
      (\<exists>ca cy. extract_author_year_from_citation citation = (Some ca, Some cy))) \<and>
   (\<forall>r. has_author L r \<longleftrightarrow>
      (\<exists>a y. extract_author_year_from_reference L (entry_text r) = (Some a, y) \<and> a \<noteq> [])) \<and>
   (\<forall>ca cy r a y. extract_author_year_from_reference L (entry_text r) = (Some a, y) \<longrightarrow>
      combined_score L ca cy r =
        double (double (double (calculate_author_match_score L ca (entry_text r) a) * double 0.6) +
                double (double (calculate_year_match_score cy (entry_text r) y) * double 0.4))) \<and>
   (\<forall>ca cy. extract_author_year_from_citation citation = (Some ca, Some cy) \<longrightarrow>
      (map_author_year_citation_to_reference L citation refs \<noteq> None \<longleftrightarrow>
         filter (has_author L) refs \<noteq> [] \<and>
         Max (combined_score L ca cy ` set (filter (has_author L) refs)) > double 0.3) \<and>
      (map_author_year_citation_to_reference L citation refs \<noteq> None \<longleftrightarrow>
         filter (has_author L) refs \<noteq> [] \<and>
         Max (combined_score L ca cy ` set (filter (has_author L) refs)) > 0.3) \<and>
      (\<forall>m. map_author_year_citation_to_reference L citation refs = Some m \<longrightarrow>
         reference_index m < length refs \<and>
         reference m = refs ! reference_index m \<and>
         has_author L (reference m) \<and>
         combined_score L ca cy (reference m) =
           Max (combined_score L ca cy ` set (filter (has_author L) refs)) \<and>
         (\<forall>j < reference_index m. has_author L (refs ! j) \<longrightarrow>
            combined_score L ca cy (refs ! j) < combined_score L ca cy (reference m))))"
proof -
  have unparseable: "extract_author_year_from_citation citation = (None, None) \<longrightarrow>
      map_author_year_citation_to_reference L citation refs = None"
    by (simp add: map_author_year_citation_to_reference_def)
  have parsed: "extract_author_year_from_citation citation = (None, None) \<or>
      (\<exists>ca cy. extract_author_year_from_citation citation = (Some ca, Some cy))"
    by (rule extract_citation_cases)
  have scored: "\<forall>r. has_author L r \<longleftrightarrow>
      (\<exists>a y. extract_author_year_from_reference L (entry_text r) = (Some a, y) \<and> a \<noteq> [])"
    by (intro allI) (rule has_author_iff)
  have score: "\<forall>ca cy r a y. extract_author_year_from_reference L (entry_text r) = (Some a, y) \<longrightarrow>
      combined_score L ca cy r =
        double (double (double (calculate_author_match_score L ca (entry_text r) a) * double 0.6) +
                double (double (calculate_year_match_score cy (entry_text r) y) * double 0.4))"
    by (simp add: combined_score_def)
  have matched: "\<forall>ca cy. extract_author_year_from_citation citation = (Some ca, Some cy) \<longrightarrow>
      (map_author_year_citation_to_reference L citation refs \<noteq> None \<longleftrightarrow>
         filter (has_author L) refs \<noteq> [] \<and>
         Max (combined_score L ca cy ` set (filter (has_author L) refs)) > double 0.3) \<and>
      (map_author_year_citation_to_reference L citation refs \<noteq> None \<longleftrightarrow>
         filter (has_author L) refs \<noteq> [] \<and>
         Max (combined_score L ca cy ` set (filter (has_author L) refs)) > 0.3) \<and>
      (\<forall>m. map_author_year_citation_to_reference L citation refs = Some m \<longrightarrow>
         reference_index m < length refs \<and>
         reference m = refs ! reference_index m \<and>
         has_author L (reference m) \<and>
         combined_score L ca cy (reference m) =
           Max (combined_score L ca cy ` set (filter (has_author L) refs)) \<and>
         (\<forall>j < reference_index m. has_author L (refs ! j) \<longrightarrow>
            combined_score L ca cy (refs ! j) < combined_score L ca cy (reference m)))"
  proof (intro allI impI)
    fix ca cy
    assume c: "extract_author_year_from_citation citation = (Some ca, Some cy)"
    note first = matcher_first_maximum [OF c, of L refs]
    from first have float_threshold:
      "map_author_year_citation_to_reference L citation refs \<noteq> None \<longleftrightarrow>
         filter (has_author L) refs \<noteq> [] \<and>
         Max (combined_score L ca cy ` set (filter (has_author L) refs)) > double 0.3"
      by (rule conjunct1)
    have threshold:
      "map_author_year_citation_to_reference L citation refs \<noteq> None \<longleftrightarrow>
         filter (has_author L) refs \<noteq> [] \<and>
         Max (combined_score L ca cy ` set (filter (has_author L) refs)) > 0.3"
      unfolding float_threshold using Max_scores_threshold [of L refs ca cy] by blast
    show "(map_author_year_citation_to_reference L citation refs \<noteq> None \<longleftrightarrow>
         filter (has_author L) refs \<noteq> [] \<and>
         Max (combined_score L ca cy ` set (filter (has_author L) refs)) > double 0.3) \<and>
      (map_author_year_citation_to_reference L citation refs \<noteq> None \<longleftrightarrow>
         filter (has_author L) refs \<noteq> [] \<and>
         Max (combined_score L ca cy ` set (filter (has_author L) refs)) > 0.3) \<and>
      (\<forall>m. map_author_year_citation_to_reference L citation refs = Some m \<longrightarrow>
         reference_index m < length refs \<and>
         reference m = refs ! reference_index m \<and>
         has_author L (reference m) \<and>
         combined_score L ca cy (reference m) =
           Max (combined_score L ca cy ` set (filter (has_author L) refs)) \<and>
         (\<forall>j < reference_index m. has_author L (refs ! j) \<longrightarrow>
            combined_score L ca cy (refs ! j) < combined_score L ca cy (reference m)))"
      by (rule conjI [OF float_threshold conjI [OF threshold first [THEN conjunct2]]])
  qed
  show ?thesis
    by (rule conjI [OF unparseable conjI [OF parsed conjI [OF scored conjI [OF score matched]]]])
qed

section \<open>The two scenarios, evaluated\<close>

lemmas string_defs = u_def strip_def isspace_def ascii_lib_def ascii_lower_def
lemmas citation_parser_defs = extract_author_year_from_citation_def parenthesized_year_def
  year_char_def re_dot_def
lemmas reference_parser_defs = extract_author_year_from_reference_def strip_label_def
  year_patterns_def year_pattern_def lead_char_def lead_char_spaces_def lead_space_def
  trail_comma_or_paren_def remove_at_end_def ends_with_def split_first_def Let_def
lemmas scenario_defs = smith_citation_def smith_reference_def zhang_citation_def
  zhang_reference_def zhang_san_def li_si_def

lemma smith_citation_parsed:
  "extract_author_year_from_citation smith_citation = (Some (u ''Smith''), Some (u ''2O2O''))"
  by (simp add: citation_parser_defs string_defs scenario_defs)

lemma smith_reference_parsed:
  "extract_author_year_from_reference ascii_lib (entry_text smith_reference) =
     (Some (u ''Smith''), Some (u ''2020''))"
  by (simp add: reference_parser_defs string_defs scenario_defs)

lemma smith_author_score:
  "calculate_author_match_score ascii_lib (u ''Smith'') (entry_text smith_reference) (u ''Smith'') = 1"
  by (simp add: calculate_author_match_score_def string_defs scenario_defs)

lemma smith_ocr: "is_ocr_error (u ''2O2O'') (u ''2020'')"
  by (simp add: is_ocr_error_def ocr_normalize_def ocr_to_digit_def u_def)

lemma smith_year_score:
  "calculate_year_match_score (u ''2O2O'') (entry_text smith_reference) (Some (u ''2020'')) = 0.9"
  using smith_ocr by (simp add: calculate_year_match_score_def) (simp add: u_def)

lemma smith_combined_score:
  "combined_score ascii_lib (u ''Smith'') (u ''2O2O'') smith_reference = double 0.96"
  by (simp add: combined_score_def smith_reference_parsed smith_author_score smith_year_score
        double_values)

lemma smith_has_author: "has_author ascii_lib smith_reference"
  by (simp add: has_author_def smith_reference_parsed) (simp add: u_def)

lemma smith_extracted_year: "extracted_year ascii_lib smith_reference = Some (u ''2020'')"
  by (simp add: extracted_year_def smith_reference_parsed)

lemma smith_loop:
  "best_match_loop ascii_lib (u ''Smith'') (u ''2O2O'') [(0, smith_reference)] (None, 0, None) =
     (Some (0, smith_reference), double 0.96, Some (u ''2020''))"
  by (simp add: best_match_loop_step smith_has_author smith_combined_score smith_extracted_year
           double_values del: best_match_loop.simps(2))

lemma smith_match:
  "map_author_year_citation_to_reference ascii_lib smith_citation [smith_reference] =
     Some \<lparr> reference = smith_reference, reference_index = 0,
            corrected_citation = u ''Smith'' @ [fw_lparen] @ u ''2020'' @ [fw_rparen],
            original_citation = smith_citation \<rparr>"
  by (simp add: map_result [OF smith_citation_parsed] smith_loop double_values
           del: best_match_loop.simps(2))
     (simp add: u_def)


lemma zhang_citation_parsed:
  "extract_author_year_from_citation zhang_citation = (Some zhang_san, Some (u ''2024''))"
  by (simp add: citation_parser_defs string_defs scenario_defs)

lemma zhang_reference_parsed:
  "extract_author_year_from_reference ascii_lib (entry_text zhang_reference) =
     (Some zhang_san, Some (u ''2024''))"
  by (simp add: reference_parser_defs string_defs scenario_defs)

lemma zhang_author_score:
  "calculate_author_match_score ascii_lib zhang_san (entry_text zhang_reference) zhang_san = 1"
  by (simp add: calculate_author_match_score_def)

lemma zhang_year_score:
  "calculate_year_match_score (u ''2024'') (entry_text zhang_reference) (Some (u ''2024'')) = 1"
  by (simp add: calculate_year_match_score_def u_def)

lemma zhang_combined_score:
  "combined_score ascii_lib zhang_san (u ''2024'') zhang_reference = 1"
  by (simp add: combined_score_def zhang_reference_parsed zhang_author_score zhang_year_score
        double_values)

lemma zhang_has_author: "has_author ascii_lib zhang_reference"
  by (simp add: has_author_def zhang_reference_parsed zhang_san_def)

lemma zhang_extracted_year: "extracted_year ascii_lib zhang_reference = Some (u ''2024'')"
  by (simp add: extracted_year_def zhang_reference_parsed)

lemma zhang_loop:
  "best_match_loop ascii_lib zhang_san (u ''2024'') [(0, zhang_reference)] (None, 0, None) =
     (Some (0, zhang_reference), 1, Some (u ''2024''))"
  by (simp add: best_match_loop_step zhang_has_author zhang_combined_score zhang_extracted_year
           del: best_match_loop.simps(2))

lemma zhang_match:
  "map_author_year_citation_to_reference ascii_lib zhang_citation [zhang_reference] =
     Some \<lparr> reference = zhang_reference, reference_index = 0,
            corrected_citation = zhang_citation, original_citation = zhang_citation \<rparr>"
  by (simp add: map_result [OF zhang_citation_parsed] zhang_loop double_values
           del: best_match_loop.simps(2))

lemma zhang_is_chinese: "is_chinese_reference (entry_text zhang_reference)"
  by (simp add: is_chinese_reference_def contains_chinese_def scenario_defs)

lemma zhang_authors:
  "extract_chinese_authors (entry_text zhang_reference) = [zhang_san, li_si]"
  by (simp add: extract_chinese_authors_def string_defs scenario_defs)

lemma zhang_formatted:
  "format_chinese_academy_of_sciences ascii_lib [zhang_san, li_si] (u ''2024'') =
     zhang_san @ u '' '' @ [cjk_deng, fw_lparen] @ u ''2024'' @ [fw_rparen]"
  by (simp add: format_chinese_academy_of_sciences_def contains_chinese_def zhang_san_def)

text \<open>The further inputs.\<close>

lemmas more_scenario_defs = smith_2020_citation_def deng_reference_def smith_1999_reference_def
  far_reference_def

lemma smith_2020_parsed:
  "extract_author_year_from_citation smith_2020_citation = (Some (u ''Smith''), Some (u ''2020''))"
  by (simp add: citation_parser_defs string_defs more_scenario_defs)

lemma deng_parsed:
  "extract_author_year_from_reference ascii_lib (entry_text deng_reference) = (Some [], Some (u ''2020''))"
  by (simp add: reference_parser_defs string_defs more_scenario_defs)

lemma deng_author_score:
  "calculate_author_match_score ascii_lib (u ''Smith'') (entry_text deng_reference) [] = 0.9"
  by (simp add: calculate_author_match_score_def string_defs more_scenario_defs)

lemma deng_year_score:
  "calculate_year_match_score (u ''2020'') (entry_text deng_reference) (Some (u ''2020'')) = 1"
  by (simp add: calculate_year_match_score_def u_def)

lemma smith_1999_parsed:
  "extract_author_year_from_reference ascii_lib (entry_text smith_1999_reference) =
     (Some (u ''Smith''), Some (u ''1999''))"
  by (simp add: reference_parser_defs string_defs more_scenario_defs)

lemma smith_1999_author_score:
  "calculate_author_match_score ascii_lib (u ''Smith'') (entry_text smith_1999_reference) (u ''Smith'') = 1"
  by (simp add: calculate_author_match_score_def)

lemma smith_1999_year_score:
  "calculate_year_match_score (u ''2020'') (entry_text smith_1999_reference) (Some (u ''1999'')) = 0"
  by (simp add: calculate_year_match_score_def is_ocr_error_def ocr_normalize_def ocr_to_digit_def
        diff_positions_def string_defs more_scenario_defs)

lemma far_parsed:
  "extract_author_year_from_reference ascii_lib (entry_text far_reference) =
     (Some (u ''Jones''), Some (u ''2021''))"
  by (simp add: reference_parser_defs string_defs more_scenario_defs)

lemma far_author_score:
  "calculate_author_match_score ascii_lib (u ''Smith'') (entry_text far_reference) (u ''Jones'') = 0.4"
  by (simp add: calculate_author_match_score_def str_find_def string_defs more_scenario_defs)

lemma far_year_score:
  "calculate_year_match_score (u ''2020'') (entry_text far_reference) (Some (u ''2021'')) = 0.9"
  by (simp add: calculate_year_match_score_def is_ocr_error_def ocr_normalize_def ocr_to_digit_def
        diff_positions_def u_def)

lemma smith_1999_combined_score:
  "combined_score ascii_lib (u ''Smith'') (u ''2020'') smith_1999_reference =
     5404319552844595 / 9007199254740992"
  by (simp add: combined_score_def smith_1999_parsed smith_1999_author_score
        smith_1999_year_score double_values)

lemma far_combined_score:
  "combined_score ascii_lib (u ''Smith'') (u ''2020'') far_reference =
     1351079888211149 / 2251799813685248"
  by (simp add: combined_score_def far_parsed far_author_score far_year_score double_values)

lemma smith_1999_has_author: "has_author ascii_lib smith_1999_reference"
  by (simp add: has_author_def smith_1999_parsed) (simp add: u_def)

lemma far_has_author: "has_author ascii_lib far_reference"
  by (simp add: has_author_def far_parsed) (simp add: u_def)

lemma deng_has_no_author: "\<not> has_author ascii_lib deng_reference"
  by (simp add: has_author_def deng_parsed)

lemma deng_loop:
  "best_match_loop ascii_lib (u ''Smith'') (u ''2020'') [(0, deng_reference)] (None, 0, None) =
     (None, 0, None)"
  by (simp add: best_match_loop_step deng_has_no_author del: best_match_loop.simps(2))

lemma deng_unmatched:
  "map_author_year_citation_to_reference ascii_lib smith_2020_citation [deng_reference] = None"
  by (simp add: map_result [OF smith_2020_parsed] deng_loop del: best_match_loop.simps(2))

section \<open>Matching and correction\<close>

text \<open>
  The first maximum on two inputs. The reference of Smith from 1999 scores the float
  \<open>1.0 * 0.6 + 0.0 * 0.4\<close>, which is the float \<open>0.6\<close>; the reference of Jones from 2021
  scores the float \<open>0.4 * 0.6 + 0.9 * 0.4\<close>, which is the next float above it. So of the
  two the second is returned, and of the first one given twice the first.
\<close>

theorem map_selects_first_maximum_witness:
  "combined_score ascii_lib (u ''Smith'') (u ''2020'') smith_1999_reference <
     combined_score ascii_lib (u ''Smith'') (u ''2020'') far_reference \<and>
   (\<exists>m. map_author_year_citation_to_reference ascii_lib smith_2020_citation
           [smith_1999_reference, far_reference] = Some m \<and>
        reference_index m = 1 \<and> reference m = far_reference) \<and>
   (\<exists>m. map_author_year_citation_to_reference ascii_lib smith_2020_citation
           [smith_1999_reference, smith_1999_reference] = Some m \<and>
        reference_index m = 0 \<and> reference m = smith_1999_reference) \<and>
   map_author_year_citation_to_reference ascii_lib (u ''see above'') [smith_reference] = None"
proof (intro conjI)
  let ?s = "combined_score ascii_lib (u ''Smith'') (u ''2020'')"
  show less: "?s smith_1999_reference < ?s far_reference"
    by (simp add: smith_1999_combined_score far_combined_score)
  {
    let ?refs = "[smith_1999_reference, far_reference]"
    let ?C = "filter (has_author ascii_lib) ?refs"
    note first = map_selects_first_maximum [of smith_2020_citation ascii_lib ?refs,
        THEN conjunct2, THEN conjunct2, THEN conjunct2, THEN conjunct2,
        THEN spec, THEN spec, THEN mp, OF smith_2020_parsed]
    have C: "?C = ?refs" by (simp add: smith_1999_has_author far_has_author)
    have mx: "Max (?s ` set ?C) = ?s far_reference"
      unfolding C by (simp add: smith_1999_combined_score far_combined_score)
    have "0.3 < Max (?s ` set ?C)"
      unfolding mx by (simp add: far_combined_score)
    with first C obtain m where
      m: "map_author_year_citation_to_reference ascii_lib smith_2020_citation ?refs = Some m"
      by auto
    from first m have idx: "reference_index m < length ?refs"
      and rf: "reference m = ?refs ! reference_index m"
      and sm: "?s (reference m) = Max (?s ` set ?C)"
      by blast+
    have "reference_index m \<noteq> 0"
    proof
      assume "reference_index m = 0"
      with rf have "reference m = smith_1999_reference" by simp
      with sm mx less show False by simp
    qed
    with idx have one: "reference_index m = 1" by simp
    with rf have "reference m = far_reference" by simp
    with m one show "\<exists>m. map_author_year_citation_to_reference ascii_lib smith_2020_citation
           ?refs = Some m \<and> reference_index m = 1 \<and> reference m = far_reference"
      by simp
  }
  {
    let ?refs = "[smith_1999_reference, smith_1999_reference]"
    let ?C = "filter (has_author ascii_lib) ?refs"
    note first = map_selects_first_maximum [of smith_2020_citation ascii_lib ?refs,
        THEN conjunct2, THEN conjunct2, THEN conjunct2, THEN conjunct2,
        THEN spec, THEN spec, THEN mp, OF smith_2020_parsed]
    have C: "?C = ?refs" by (simp add: smith_1999_has_author)
    have mx: "Max (?s ` set ?C) = ?s smith_1999_reference"
      unfolding C by simp
    have "0.3 < Max (?s ` set ?C)"
      unfolding mx by (simp add: smith_1999_combined_score)
    with first C obtain m where
      m: "map_author_year_citation_to_reference ascii_lib smith_2020_citation ?refs = Some m"
      by auto
    from first m have idx: "reference_index m < length ?refs"
      and rf: "reference m = ?refs ! reference_index m"
      and lt: "\<forall>j < reference_index m. has_author ascii_lib (?refs ! j) \<longrightarrow>
                 ?s (?refs ! j) < ?s (reference m)"
      by blast+
    have zero: "reference_index m = 0"
    proof (rule ccontr)
      assume "reference_index m \<noteq> 0"
      with idx have one: "reference_index m = 1" by simp
      with rf have r: "reference m = smith_1999_reference" by simp
      from lt one have "has_author ascii_lib (?refs ! 0) \<longrightarrow> ?s (?refs ! 0) < ?s (reference m)"
        by simp
      with r smith_1999_has_author show False by simp
    qed
    with rf have "reference m = smith_1999_reference" by simp
    with m zero show "\<exists>m. map_author_year_citation_to_reference ascii_lib smith_2020_citation
           ?refs = Some m \<and> reference_index m = 0 \<and> reference m = smith_1999_reference"
      by simp
  }
  have "extract_author_year_from_citation (u ''see above'') = (None, None)"
    by (simp add: citation_parser_defs string_defs)
  then show "map_author_year_citation_to_reference ascii_lib (u ''see above'') [smith_reference] = None"
    using map_selects_first_maximum [of "u ''see above''" ascii_lib "[smith_reference]"]
    by blast
qed

text \<open>
  A reference that is not scored. From the text of \<open>deng_reference\<close> the year 2020 and the
  empty author are extracted: the character U+7B49 before the first full stop is removed
  as the "et al." of a Chinese author list. The two scorers give this author and this
  year the scores 0.9 (the empty string is contained in every author) and 1.0, and
  \<open>0.9 * 0.6 + 1.0 * 0.4\<close> is greater than 0.3; but the loop passes over the reference, and
  the citation is not matched.
\<close>

theorem unscored_reference_counterexample:
  "extract_author_year_from_citation smith_2020_citation = (Some (u ''Smith''), Some (u ''2020'')) \<and>
   extract_author_year_from_reference ascii_lib (entry_text deng_reference) =
     (Some [], Some (u ''2020'')) \<and>
   calculate_author_match_score ascii_lib (u ''Smith'') (entry_text deng_reference) [] = 0.9 \<and>
   calculate_year_match_score (u ''2020'') (entry_text deng_reference) (Some (u ''2020'')) = 1.0 \<and>
   0.3 < double (double (double 0.9 * double 0.6) + double (double 1.0 * double 0.4)) \<and>
   map_author_year_citation_to_reference ascii_lib smith_2020_citation [deng_reference] = None"
  by (simp add: smith_2020_parsed deng_parsed deng_author_score deng_year_score double_values
        deng_unmatched)

text \<open>
  Claim C4. For a citation that is matched: if a year was extracted from the matched
  reference and it differs from the year of the citation, \<open>corrected_citation\<close> is the
  author of the citation followed by that year in full-width parentheses; otherwise, in
  particular when the two years are equal, \<open>corrected_citation\<close> is the citation text as
  it was given.
\<close>

theorem corrected_citation_rule:
  assumes m: "map_author_year_citation_to_reference L citation refs = Some m"
      and c: "extract_author_year_from_citation citation = (Some ca, Some cy)"
  shows "original_citation m = citation \<and>
         (\<forall>y. extracted_year L (reference m) = Some y \<and> y \<noteq> cy \<longrightarrow>
              corrected_citation m = ca @ [fw_lparen] @ y @ [fw_rparen]) \<and>
         (extracted_year L (reference m) = None \<or> extracted_year L (reference m) = Some cy \<longrightarrow>
              corrected_citation m = citation)"
proof -
  let ?xs = "zip [0 ..< length refs] refs"
  note res = map_result [OF c, of L refs]
  from best_match_loop_result [of L ca cy ?xs None 0 None]
  show ?thesis
  proof (elim disjE conjE exE)
    assume "best_match_loop L ca cy ?xs (None, 0, None) = (None, 0, None)"
    with res m show ?thesis by simp
  next
    fix k
    assume k: "k < length ?xs"
      and loop: "best_match_loop L ca cy ?xs (None, 0, None) =
          (Some (?xs ! k), combined_score L ca cy (snd (?xs ! k)), extracted_year L (snd (?xs ! k)))"
    from k have xk: "?xs ! k = (k, refs ! k)" by simp
    let ?y = "extracted_year L (refs ! k)"
    from res loop xk m have gt: "combined_score L ca cy (refs ! k) > double 0.3"
      by (simp split: if_splits)
    with res loop xk m have m_eq: "m = \<lparr> reference = refs ! k, reference_index = k,
        corrected_citation =
          (case ?y of None \<Rightarrow> citation
           | Some ry \<Rightarrow> if ry \<noteq> [] \<and> ry \<noteq> cy then ca @ [fw_lparen] @ ry @ [fw_rparen] else citation),
        original_citation = citation \<rparr>"
      by simp
    have ne: "ry \<noteq> []" if "?y = Some ry" for ry
      using extracted_year_length [OF that] by auto
    show ?thesis
      unfolding m_eq using ne by (auto split: option.splits)
  qed
qed

theorem corrected_citation_rule_witness:
  "map_option corrected_citation
     (map_author_year_citation_to_reference ascii_lib smith_citation [smith_reference]) =
     Some (u ''Smith'' @ [fw_lparen] @ u ''2020'' @ [fw_rparen]) \<and>
   map_option corrected_citation
     (map_author_year_citation_to_reference ascii_lib zhang_citation [zhang_reference]) =
     Some zhang_citation"
proof
  let ?m = "\<lparr> reference = smith_reference, reference_index = 0,
            corrected_citation = u ''Smith'' @ [fw_lparen] @ u ''2020'' @ [fw_rparen],
            original_citation = smith_citation \<rparr>"
  have ne: "u ''2020'' \<noteq> u ''2O2O''" by (simp add: u_def)
  from corrected_citation_rule [OF smith_match smith_citation_parsed]
  have "corrected_citation ?m = u ''Smith'' @ [fw_lparen] @ u ''2020'' @ [fw_rparen]"
    using smith_extracted_year ne by simp
  then show "map_option corrected_citation
     (map_author_year_citation_to_reference ascii_lib smith_citation [smith_reference]) =
     Some (u ''Smith'' @ [fw_lparen] @ u ''2020'' @ [fw_rparen])"
    by (simp add: smith_match)
next
  let ?m = "\<lparr> reference = zhang_reference, reference_index = 0,
            corrected_citation = zhang_citation, original_citation = zhang_citation \<rparr>"
  from corrected_citation_rule [OF zhang_match zhang_citation_parsed]
  have "corrected_citation ?m = zhang_citation"
    using zhang_extracted_year by simp
  then show "map_option corrected_citation
     (map_author_year_citation_to_reference ascii_lib zhang_citation [zhang_reference]) =
     Some zhang_citation"
    by (simp add: zhang_match)
qed

section \<open>The scenarios of the specification\<close>

text \<open>
  The scenario of \<open>Smith(2O2O)\<close> and \<open>Smith, J. (2020).\<close>: the author extracted from the
  reference is \<open>Smith\<close>, equal to the author of the citation, so the author score is that
  of the first tier and not 0.9.
\<close>

theorem smith_author_score_counterexample:
  "extract_author_year_from_citation smith_citation = (Some (u ''Smith''), Some (u ''2O2O'')) \<and>
   extract_author_year_from_reference ascii_lib (entry_text smith_reference) =
     (Some (u ''Smith''), Some (u ''2020'')) \<and>
   calculate_author_match_score ascii_lib (u ''Smith'') (entry_text smith_reference) (u ''Smith'') \<noteq> 0.9"
  by (simp add: smith_citation_parsed smith_reference_parsed smith_author_score)

text \<open>
  Claim C5, amended. For the citation \<open>Smith(2O2O)\<close> (full-width parentheses) and the single reference
  \<open>Smith, J. (2020).\<close>: the author score is 1.0 (the extracted reference author equals
  the citation author), the years \<open>2O2O\<close> and \<open>2020\<close> are OCR-confusable and the year score
  is 0.9, the combined score is the float 0.96, which is at least 0.9, the citation is matched to
  the reference, and the corrected citation is \<open>Smith(2020)\<close> with full-width parentheses.
\<close>

theorem smith_scenario:
  "extract_author_year_from_citation smith_citation = (Some (u ''Smith''), Some (u ''2O2O'')) \<and>
   extract_author_year_from_reference ascii_lib (entry_text smith_reference) =
     (Some (u ''Smith''), Some (u ''2020'')) \<and>
   calculate_author_match_score ascii_lib (u ''Smith'') (entry_text smith_reference) (u ''Smith'') = 1.0 \<and>
   is_ocr_error (u ''2O2O'') (u ''2020'') \<and>
   calculate_year_match_score (u ''2O2O'') (entry_text smith_reference) (Some (u ''2020'')) = 0.9 \<and>
   combined_score ascii_lib (u ''Smith'') (u ''2O2O'') smith_reference = double 0.96 \<and>
   combined_score ascii_lib (u ''Smith'') (u ''2O2O'') smith_reference \<ge> 0.9 \<and>
   map_option reference
     (map_author_year_citation_to_reference ascii_lib smith_citation [smith_reference]) =
     Some smith_reference \<and>
   map_option corrected_citation
     (map_author_year_citation_to_reference ascii_lib smith_citation [smith_reference]) =
     Some (u ''Smith'' @ [fw_lparen] @ u ''2020'' @ [fw_rparen])"
  by (simp add: smith_citation_parsed smith_reference_parsed smith_author_score smith_ocr
        smith_year_score smith_combined_score smith_match double_values)

theorem smith_scenario_witness:
  "map_author_year_citation_to_reference ascii_lib smith_citation [smith_reference] \<noteq> None \<and>
   (0.9 :: real) \<le> 0.96"
  using smith_scenario by auto

text \<open>
  Claim C6. For the citation \<open>zhang_citation\<close> (Zhang San with the year 2024 in
  full-width parentheses) and the single reference \<open>zhang_reference\<close>: author score, year
  score and combined score are 1.0, the citation is matched to the reference, the
  reference is taken for a Chinese one, its author list is Zhang San, Li Si, and the
  citation formatted from this list and the year is Zhang San, a space, the character
  U+7B49 and the year 2024 in full-width parentheses.
\<close>

theorem zhang_scenario:
  "extract_author_year_from_citation zhang_citation = (Some zhang_san, Some (u ''2024'')) \<and>
   extract_author_year_from_reference ascii_lib (entry_text zhang_reference) =
     (Some zhang_san, Some (u ''2024'')) \<and>
   calculate_author_match_score ascii_lib zhang_san (entry_text zhang_reference) zhang_san = 1.0 \<and>
   calculate_year_match_score (u ''2024'') (entry_text zhang_reference) (Some (u ''2024'')) = 1.0 \<and>
   combined_score ascii_lib zhang_san (u ''2024'') zhang_reference = 1.0 \<and>
   map_option reference
     (map_author_year_citation_to_reference ascii_lib zhang_citation [zhang_reference]) =
     Some zhang_reference \<and>
   is_chinese_reference (entry_text zhang_reference) \<and>
   extract_chinese_authors (entry_text zhang_reference) = [zhang_san, li_si] \<and>
   format_chinese_academy_of_sciences ascii_lib
     (extract_chinese_authors (entry_text zhang_reference)) (u ''2024'') =
     zhang_san @ u '' '' @ [cjk_deng, fw_lparen] @ u ''2024'' @ [fw_rparen]"
  by (simp add: zhang_citation_parsed zhang_reference_parsed zhang_author_score
        zhang_year_score zhang_combined_score zhang_match zhang_is_chinese zhang_authors
        zhang_formatted)

theorem zhang_scenario_witness:
  "map_author_year_citation_to_reference ascii_lib zhang_citation [zhang_reference] \<noteq> None \<and>
   length (extract_chinese_authors (entry_text zhang_reference)) = 2"
  using zhang_scenario by auto

section \<open>Years that differ in three or four characters\<close>

text \<open>
  The years \<open>2OIS\<close> and \<open>2015\<close> differ in three characters and \<open>ZOIS\<close> and \<open>2015\<close> in all
  four; both are years that the citation parser extracts. Their normalised forms are
  equal, so \<open>is_ocr_error\<close> is true of them and the year score is 0.9.
\<close>

theorem is_ocr_error_written_differences_counterexample:
  "extract_author_year_from_citation (u ''Smith'' @ [fw_lparen] @ u ''2OIS'' @ [fw_rparen]) =
     (Some (u ''Smith''), Some (u ''2OIS'')) \<and>
   length (filter (\<lambda>(a, b). a \<noteq> b) (zip (u ''2OIS'') (u ''2015''))) = 3 \<and>
   is_ocr_error (u ''2OIS'') (u ''2015'') \<and>
   extract_author_year_from_citation (u ''Smith'' @ [fw_lparen] @ u ''ZOIS'' @ [fw_rparen]) =
     (Some (u ''Smith''), Some (u ''ZOIS'')) \<and>
   length (filter (\<lambda>(a, b). a \<noteq> b) (zip (u ''ZOIS'') (u ''2015''))) = 4 \<and>
   is_ocr_error (u ''ZOIS'') (u ''2015'') \<and>
   calculate_year_match_score (u ''ZOIS'') (u ''Smith, J. (2015).'') (Some (u ''2015'')) = 0.9"
  by (simp add: citation_parser_defs string_defs is_ocr_error_def ocr_normalize_def
        ocr_to_digit_def calculate_year_match_score_def)

section \<open>The formatter on a single author\<close>

lemma who_surname: "formatter_extract_surname who_author = u ''Organization''"
  by (simp add: formatter_extract_surname_def str_split_def split_first_def who_author_def
        string_defs)

lemma un_surname: "formatter_extract_surname un_author = u ''NATIONS''"
  by (simp add: formatter_extract_surname_def str_split_def split_first_def un_author_def
        string_defs)

text \<open>
  Claim C7. For a list of exactly one author, \<open>_format_chinese_academy_of_sciences\<close>
  returns the author followed by the year in full-width parentheses only when the author
  contains a Chinese character; otherwise it returns what \<open>_extract_surname\<close> makes of the
  author, followed by the year. The test for an institutional author (more than two words,
  or written in capitals) is applied to this surname and not to the author, and both its
  branches return the surname: the name of an organisation is not kept intact.
\<close>

theorem single_author_rendered_as_surname:
  "format_chinese_academy_of_sciences L [author] year =
     (if contains_chinese author then author else formatter_extract_surname author) @
     [fw_lparen] @ year @ [fw_rparen]"
  by (simp add: format_chinese_academy_of_sciences_def Let_def)

theorem single_author_rendered_as_surname_witness:
  "length (str_split who_author) = 3 \<and>
   format_chinese_academy_of_sciences ascii_lib [who_author] (u ''2020'') =
     u ''Organization'' @ [fw_lparen] @ u ''2020'' @ [fw_rparen] \<and>
   str_isupper ascii_lib un_author \<and>
   format_chinese_academy_of_sciences ascii_lib [un_author] (u ''2020'') =
     u ''NATIONS'' @ [fw_lparen] @ u ''2020'' @ [fw_rparen]"
proof (intro conjI)
  show "length (str_split who_author) = 3"
    by (simp add: str_split_def who_author_def string_defs)
  have "\<not> contains_chinese who_author"
    by (simp add: contains_chinese_def who_author_def u_def)
  then show "format_chinese_academy_of_sciences ascii_lib [who_author] (u ''2020'') =
     u ''Organization'' @ [fw_lparen] @ u ''2020'' @ [fw_rparen]"
    using single_author_rendered_as_surname [of ascii_lib who_author "u ''2020''"]
    by (simp add: who_surname)
  show "str_isupper ascii_lib un_author"
    by (simp add: un_author_def string_defs)
  have "\<not> contains_chinese un_author"
    by (simp add: contains_chinese_def un_author_def u_def)
  then show "format_chinese_academy_of_sciences ascii_lib [un_author] (u ''2020'') =
     u ''NATIONS'' @ [fw_lparen] @ u ''2020'' @ [fw_rparen]"
    using single_author_rendered_as_surname [of ascii_lib un_author "u ''2020''"]
    by (simp add: un_surname)
qed

section \<open>Arguments that are not strings\<close>

text \<open>
  Claim C8. \<open>extract_author_year_from_citation\<close> and
  \<open>map_author_year_citation_to_reference\<close> raise \<open>AttributeError\<close> when the citation is
  \<open>None\<close> or an integer, whatever the references are; for the empty string they return
  \<open>(None, None)\<close> and \<open>None\<close>, which is what they would return if \<open>None\<close> were treated as
  the empty string.
\<close>

theorem none_citation_raises:
  "extract_author_year_from_citation_py PyNone = Inl AttributeError \<and>
   map_author_year_citation_to_reference_py L PyNone references = Inl AttributeError \<and>
   extract_author_year_from_citation_py (PyInt n) = Inl AttributeError \<and>
   map_author_year_citation_to_reference_py L (PyInt n) references = Inl AttributeError \<and>
   extract_author_year_from_citation_py (PyStr []) = Inr (None, None) \<and>
   map_author_year_citation_to_reference_py L (PyStr []) references = Inr None"
  by (simp add: extract_author_year_from_citation_py_def
        map_author_year_citation_to_reference_py_def map_author_year_citation_to_reference_def
        citation_parser_defs strip_def)

theorem none_citation_raises_witness:
  "map_author_year_citation_to_reference_py ascii_lib PyNone [smith_reference] \<noteq> Inr None \<and>
   map_author_year_citation_to_reference_py ascii_lib (PyStr []) [smith_reference] = Inr None"
  using none_citation_raises [of ascii_lib "[smith_reference]"] by simp

section \<open>Unused references\<close>





end
